theory Spec2Isabelle
  imports Main "HOL-Library.Word" "HOL-Library.AList"
begin

section \<open>Buffers and failures\<close>

text \<open>
  A Node \<^verbatim>\<open>Buffer\<close> is a sequence of 8-bit bytes. Every \<^verbatim>\<open>throw\<close> of
  \<^verbatim>\<open>parser.ts\<close> and every exception that escapes the \<^verbatim>\<open>binary-parser\<close> package
  is a value of \<open>error\<close>; a function that can throw returns \<open>error + 'a\<close>.
  \<^item> \<open>RangeError\<close>: a read of the \<^verbatim>\<open>binary-parser\<close> package past the end of its buffer
    (the \<^verbatim>\<open>DataView\<close> getters throw it). \<^verbatim>\<open>parser.ts\<close> catches nothing, so it reaches
    the caller as it is, whichever block was being read.
  \<^item> \<open>NotAnAliveCorEcgFile\<close>: \<^verbatim>\<open>Error('Not an AliveCor ECG file')\<close>.
  \<^item> \<open>UnsupportedAliveCorEcgFile\<close>: \<^verbatim>\<open>Error('Unsupported AliveCor ECG file')\<close>.
  \<^item> \<open>UnsupportedEcgFormat\<close>: \<^verbatim>\<open>Error('Unsupported ECG Format in AliveCor ECG file')\<close>.
  \<^item> \<open>NoInfoBlock\<close>: \<^verbatim>\<open>Error('No info block in AliveCor ECG file')\<close>.
  \<^item> \<open>NoFormatBlock\<close>: \<^verbatim>\<open>Error('No format block in AliveCor ECG file')\<close>.
\<close>

type_synonym byte = "8 word"
type_synonym Buffer = "byte list"

datatype error =
    RangeError
  | NotAnAliveCorEcgFile
  | UnsupportedAliveCorEcgFile
  | UnsupportedEcgFormat
  | NoInfoBlock
  | NoFormatBlock

section \<open>The readers of the binary-parser package\<close>

text \<open>
  \<^verbatim>\<open>parser.ts\<close> declares its layouts with the builder of the \<^verbatim>\<open>binary-parser\<close> package
  (an npm dependency). The package turns a chain of builder calls into code that keeps
  an \<^verbatim>\<open>offset\<close> into the buffer, reads one field after the other and advances the offset.
  A reader below is that code for one field: it takes the bytes from the offset on and
  returns the field's value with the bytes that follow it, or the exception. The rest
  of the buffer is empty exactly when \<^verbatim>\<open>offset < buffer.length\<close> is false.
\<close>

type_synonym 'a reader = "Buffer \<Rightarrow> error + ('a \<times> Buffer)"

text \<open>Chaining two builder calls: the second field is read where the first one ended.\<close>

definition then_read :: "'a reader \<Rightarrow> ('a \<Rightarrow> 'b reader) \<Rightarrow> 'b reader" where
  "then_read r k bs = (case r bs of Inl e \<Rightarrow> Inl e | Inr (v, rest) \<Rightarrow> k v rest)"

text \<open>The end of a chain: the object of the fields read so far.\<close>

definition result :: "'a \<Rightarrow> 'a reader" where
  "result v bs = Inr (v, bs)"

text \<open>\<^verbatim>\<open>p.parse(buffer)\<close>: runs the chain from offset 0 and returns its object; bytes
  left after the last field are ignored.\<close>

definition run_parser :: "'a reader \<Rightarrow> Buffer \<Rightarrow> error + 'a" where
  "run_parser r bs = (case r bs of Inl e \<Rightarrow> Inl e | Inr (v, rest) \<Rightarrow> Inr v)"

text \<open>\<^verbatim>\<open>uint8\<close>, \<^verbatim>\<open>uint16\<close>, \<^verbatim>\<open>uint32\<close> and \<^verbatim>\<open>int16le\<close> under
  \<^verbatim>\<open>endianness('little')\<close>: \<^verbatim>\<open>dataView.getUint8(offset)\<close>,
  \<^verbatim>\<open>getUint16(offset, true)\<close>, \<^verbatim>\<open>getUint32(offset, true)\<close>, \<^verbatim>\<open>getInt16(offset, true)\<close>.
  Each throws a RangeError when the field does not fit into the buffer.\<close>

fun uint8 :: "nat reader" where
  "uint8 (b0 # rest) = Inr (unat b0, rest)"
| "uint8 _ = Inl RangeError"

fun uint16le :: "nat reader" where
  "uint16le (b0 # b1 # rest) = Inr (unat b0 + 256 * unat b1, rest)"
| "uint16le _ = Inl RangeError"

fun uint32le :: "nat reader" where
  "uint32le (b0 # b1 # b2 # b3 # rest) =
     Inr (unat b0 + 256 * unat b1 + 65536 * unat b2 + 16777216 * unat b3, rest)"
| "uint32le _ = Inl RangeError"

fun int16le :: "int reader" where
  "int16le (b0 # b1 # rest) = Inr (sint (word_cat b1 b0 :: 16 word), rest)"
| "int16le _ = Inl RangeError"

text \<open>\<^verbatim>\<open>buffer(name, { length: n })\<close>: \<^verbatim>\<open>buffer.subarray(offset, offset + n)\<close>, then
  \<^verbatim>\<open>offset += n\<close>. \<^verbatim>\<open>subarray\<close> clamps its bounds to the buffer, so the field is shorter
  than \<open>n\<close> when fewer bytes are left, and nothing is thrown.\<close>

definition buffer_fixed :: "nat \<Rightarrow> Buffer reader" where
  "buffer_fixed n bs = Inr (take n bs, drop n bs)"

text \<open>Text. \<^verbatim>\<open>string(name, { length: n })\<close> decodes
  \<^verbatim>\<open>buffer.subarray(offset, offset + n)\<close> (clamped as above, never throwing) with the
  default encoding. The model keeps one character per byte: it is exact on ASCII text,
  where UTF-8 decoding maps each byte to the character of the same code, and it does not
  interpret the bytes from 128 on (multi-byte sequences and the replacement character).
  A 4-byte identifier decodes to a tag of four ASCII characters exactly when its bytes
  are the tag's codes, in either reading.\<close>

definition decodeText :: "Buffer \<Rightarrow> string" where
  "decodeText bs = map (\<lambda>b. char_of (unat b)) bs"

definition string_fixed :: "nat \<Rightarrow> string reader" where
  "string_fixed n bs = Inr (decodeText (take n bs), drop n bs)"

text \<open>\<^verbatim>\<open>stripNull: true\<close>: \<^verbatim>\<open>s.replace(/\x00+$/g, '')\<close>, which removes the NUL
  characters at the end of the string, and only those.\<close>

definition stripNull :: "string \<Rightarrow> string" where
  "stripNull s = rev (dropWhile (\<lambda>c. c = CHR 0x00) (rev s))"

text \<open>\<^verbatim>\<open>string(name, { length: n, stripNull: true, formatter: f })\<close>.\<close>

definition string_stripped :: "nat \<Rightarrow> (string \<Rightarrow> string) \<Rightarrow> string reader" where
  "string_stripped n f bs = Inr (f (stripNull (decodeText (take n bs))), drop n bs)"

text \<open>A run of \<^verbatim>\<open>bit1\<close> fields of 8 bits in all is read as one \<^verbatim>\<open>getUint8\<close>; under little
  endianness the field at bit offset \<open>i\<close> of the run is \<^verbatim>\<open>val >> i & 1\<close>, the first
  field declared being bit 0.\<close>

definition bit1 :: "nat \<Rightarrow> nat \<Rightarrow> nat" where
  "bit1 val i = (val div 2 ^ i) mod 2"

section \<open>The functions of parser.ts outside the parser object\<close>

text \<open>\<^verbatim>\<open>convertToBoolean(bit)\<close> is \<^verbatim>\<open>bit === 1\<close>.\<close>

definition convertToBoolean :: "nat \<Rightarrow> bool" where
  "convertToBoolean b = (b = 1)"

text \<open>\<^verbatim>\<open>trimString(s)\<close> is \<^verbatim>\<open>s.trim()\<close>: white space is removed at both ends. Of the
  characters \<^verbatim>\<open>trim\<close> removes, the ASCII ones are tab, line feed, vertical tab, form feed,
  carriage return and space.\<close>

definition isWhiteSpace :: "char \<Rightarrow> bool" where
  "isWhiteSpace c = (c \<in> set [CHR 0x09, CHR 0x0A, CHR 0x0B, CHR 0x0C, CHR 0x0D, CHR 0x20])"

definition trimString :: "string \<Rightarrow> string" where
  "trimString s = rev (dropWhile isWhiteSpace (rev (dropWhile isWhiteSpace s)))"

text \<open>\<^verbatim>\<open>buffer.toString('hex')\<close>: two lower-case hexadecimal digits per byte.\<close>

definition hexDigit :: "nat \<Rightarrow> char" where
  "hexDigit n = ''0123456789abcdef'' ! n"

definition toHex :: "Buffer \<Rightarrow> string" where
  "toHex bs = concat (map (\<lambda>b. [hexDigit (unat b div 16), hexDigit (unat b mod 16)]) bs)"

section \<open>The interfaces of parser.ts\<close>

record AliveCorEcgInfo =
  dateRecorded :: string
  recordingUuid :: string
  mobilePhoneUuid :: string
  mobilePhoneModel :: string
  recorderSoftware :: string
  recorderHardware :: string
  deviceData :: string

text \<open>The object \<^verbatim>\<open>formatBlockParser\<close> builds also has the fields \<^verbatim>\<open>unused\<close> and
  \<^verbatim>\<open>reserved\<close>, which the interface \<^verbatim>\<open>AliveCorEcgFormat\<close> leaves out. A field has the
  type its reader and formatter give it: \<^verbatim>\<open>polarity\<close> has no formatter and is the bit, a
  number; the filter flags go through \<^verbatim>\<open>convertToBoolean\<close>.\<close>

record AliveCorEcgFormat =
  ecgFormat :: nat
  samplingRateHz :: nat
  amplitudeResolutionNV :: nat
  polarity :: nat
  mainsFrequency :: nat
  mainsFilter :: bool
  lowPassFilter :: bool
  baseLineFilter :: bool
  notchMainsFilter :: bool
  enhancedFilter :: bool
  unused :: nat
  reserved :: nat

record tick =
  offset :: nat
  beatType :: nat

record AliveCorEcgAnnotation =
  tickCountFrequencyHz :: nat
  ticks :: "tick list"

text \<open>\<^verbatim>\<open>AliveCorEcgLeads\<close> is the object the \<^verbatim>\<open>reduce\<close> of \<^verbatim>\<open>parse\<close> builds: its keys in
  the order of insertion, each with its samples. A key that is not in the list is a
  property the object does not have.\<close>

type_synonym AliveCorEcgLeads = "(string \<times> int list) list"

record AliveCorEcg =
  fileVersion :: string
  info :: AliveCorEcgInfo
  format :: AliveCorEcgFormat
  leads :: AliveCorEcgLeads
  annotation :: "AliveCorEcgAnnotation option"

text \<open>A block as \<^verbatim>\<open>blockParser\<close> returns it. The field \<^verbatim>\<open>length\<close> of the source is
  \<open>block_length\<close> here: it is the declared length, while \<open>contents\<close> has the bytes that
  were there.\<close>

record AliveCorBlock =
  "identifier" :: string
  block_length :: nat
  contents :: Buffer
  checksum :: nat

record AliveCorFile =
  signature :: Buffer
  version :: nat
  blocks :: "AliveCorBlock list"

section \<open>The parsers of createAliveCorEcgParser\<close>

text \<open>An \<^verbatim>\<open>array\<close> with \<^verbatim>\<open>readUntil: 'eof'\<close> is the loop
  \<^verbatim>\<open>while (offset < buffer.length) { read one item; push it }\<close>. An item that does not
  fit throws, and the loop ends with the offset at the end of the buffer.\<close>

text \<open>\<^verbatim>\<open>leadBlockParser\<close>: \<^verbatim>\<open>array('data', { type: 'int16le', readUntil: 'eof' })\<close>.\<close>

function int16le_until_eof :: "Buffer \<Rightarrow> error + int list" where
  "int16le_until_eof bs =
     (if bs = [] then Inr []
      else case int16le bs of
        Inl e \<Rightarrow> Inl e
      | Inr (v, rest) \<Rightarrow>
          (case int16le_until_eof rest of Inl e \<Rightarrow> Inl e | Inr vs \<Rightarrow> Inr (v # vs)))"
  by pat_completeness auto
termination
proof (relation "measure length")
  show "wf (measure length)" by simp
next
  fix bs :: Buffer and x2 :: "int \<times> Buffer" and v :: int and rest :: Buffer
  assume "int16le bs = Inr x2" and "(v, rest) = x2"
  then have "int16le bs = Inr (v, rest)" by simp
  then have "length rest < length bs"
    by (rule int16le.elims) auto
  then show "(rest, bs) \<in> measure length" by simp
qed

definition leadBlockParser :: "Buffer \<Rightarrow> error + int list" where
  "leadBlockParser bs = int16le_until_eof bs"

text \<open>\<^verbatim>\<open>annotationBlockParser\<close>: \<^verbatim>\<open>uint32('tickCountFrequencyHz')\<close>, then an array
  until eof of \<^verbatim>\<open>uint32('offset')\<close>, \<^verbatim>\<open>uint16('beatType')\<close>.\<close>

definition tickParser :: "tick reader" where
  "tickParser =
     then_read uint32le (\<lambda>off.
     then_read uint16le (\<lambda>bt.
     result \<lparr>offset = off, beatType = bt\<rparr>))"

function ticks_until_eof :: "Buffer \<Rightarrow> error + tick list" where
  "ticks_until_eof bs =
     (if bs = [] then Inr []
      else case tickParser bs of
        Inl e \<Rightarrow> Inl e
      | Inr (t, rest) \<Rightarrow>
          (case ticks_until_eof rest of Inl e \<Rightarrow> Inl e | Inr ts \<Rightarrow> Inr (t # ts)))"
  by pat_completeness auto
termination
proof (relation "measure length")
  show "wf (measure length)" by simp
next
  fix bs :: Buffer and x2 :: "tick \<times> Buffer" and t :: tick and rest :: Buffer
  assume "tickParser bs = Inr x2" and "(t, rest) = x2"
  then have "tickParser bs = Inr (t, rest)" by simp
  then have "length rest < length bs"
    by (auto simp: tickParser_def then_read_def result_def
        split: sum.splits prod.splits elim!: uint32le.elims uint16le.elims)
  then show "(rest, bs) \<in> measure length" by simp
qed

definition annotationBlockParser :: "Buffer \<Rightarrow> error + AliveCorEcgAnnotation" where
  "annotationBlockParser bs =
     (case uint32le bs of
        Inl e \<Rightarrow> Inl e
      | Inr (freq, rest) \<Rightarrow>
          (case ticks_until_eof rest of
             Inl e \<Rightarrow> Inl e
           | Inr ts \<Rightarrow> Inr \<lparr>tickCountFrequencyHz = freq, ticks = ts\<rparr>))"

text \<open>\<^verbatim>\<open>infoBlockParser\<close>: seven strings of fixed length, each with
  \<^verbatim>\<open>stripNull: true\<close> and \<^verbatim>\<open>formatter: trimString\<close>.\<close>

definition infoBlockParser :: "AliveCorEcgInfo reader" where
  "infoBlockParser =
     then_read (string_stripped 32 trimString) (\<lambda>f1.
     then_read (string_stripped 40 trimString) (\<lambda>f2.
     then_read (string_stripped 44 trimString) (\<lambda>f3.
     then_read (string_stripped 32 trimString) (\<lambda>f4.
     then_read (string_stripped 32 trimString) (\<lambda>f5.
     then_read (string_stripped 32 trimString) (\<lambda>f6.
     then_read (string_stripped 52 trimString) (\<lambda>f7.
     result \<lparr>dateRecorded = f1, recordingUuid = f2, mobilePhoneUuid = f3,
       mobilePhoneModel = f4, recorderSoftware = f5, recorderHardware = f6,
       deviceData = f7\<rparr>)))))))"

text \<open>\<^verbatim>\<open>formatBlockParser\<close>: \<^verbatim>\<open>uint8\<close>, two \<^verbatim>\<open>uint16\<close>, the eight \<^verbatim>\<open>bit1\<close> fields that
  share one byte, and a \<^verbatim>\<open>uint16\<close>. The formatter of \<^verbatim>\<open>mainsFrequency\<close> is
  \<^verbatim>\<open>(f) => (f ? 60 : 50)\<close>.\<close>

definition formatBlockParser :: "AliveCorEcgFormat reader" where
  "formatBlockParser =
     then_read uint8 (\<lambda>fmt.
     then_read uint16le (\<lambda>rate.
     then_read uint16le (\<lambda>amp.
     then_read uint8 (\<lambda>val.
     then_read uint16le (\<lambda>res.
     result \<lparr>ecgFormat = fmt, samplingRateHz = rate, amplitudeResolutionNV = amp,
       polarity = bit1 val 0,
       mainsFrequency = (if bit1 val 1 \<noteq> 0 then 60 else 50),
       mainsFilter = convertToBoolean (bit1 val 2),
       lowPassFilter = convertToBoolean (bit1 val 3),
       baseLineFilter = convertToBoolean (bit1 val 4),
       notchMainsFilter = convertToBoolean (bit1 val 5),
       enhancedFilter = convertToBoolean (bit1 val 6),
       unused = bit1 val 7,
       reserved = res\<rparr>)))))"

text \<open>\<^verbatim>\<open>blockParser\<close>: \<^verbatim>\<open>string('identifier', { length: 4 })\<close>, \<^verbatim>\<open>uint32('length')\<close>,
  \<^verbatim>\<open>buffer('contents', { length: 'length' })\<close>, \<^verbatim>\<open>uint32('checksum')\<close>.\<close>

definition blockParser :: "AliveCorBlock reader" where
  "blockParser =
     then_read (string_fixed 4) (\<lambda>ident.
     then_read uint32le (\<lambda>len.
     then_read (buffer_fixed len) (\<lambda>cont.
     then_read uint32le (\<lambda>chk.
     result \<lparr>identifier = ident, block_length = len, contents = cont, checksum = chk\<rparr>))))"

function blocks_until_eof :: "Buffer \<Rightarrow> error + AliveCorBlock list" where
  "blocks_until_eof bs =
     (if bs = [] then Inr []
      else case blockParser bs of
        Inl e \<Rightarrow> Inl e
      | Inr (b, rest) \<Rightarrow>
          (case blocks_until_eof rest of Inl e \<Rightarrow> Inl e | Inr bl \<Rightarrow> Inr (b # bl)))"
  by pat_completeness auto
termination
proof (relation "measure length")
  show "wf (measure length)" by simp
next
  fix bs :: Buffer and x2 :: "AliveCorBlock \<times> Buffer" and b :: AliveCorBlock and rest :: Buffer
  assume "blockParser bs = Inr x2" and "(b, rest) = x2"
  then have "blockParser bs = Inr (b, rest)" by simp
  then obtain len r2 chk where
      r2: "uint32le (drop 4 bs) = Inr (len, r2)" and
      rest: "uint32le (drop len r2) = Inr (chk, rest)"
    by (auto simp: blockParser_def then_read_def result_def string_fixed_def buffer_fixed_def
        split: sum.splits prod.splits)
  from r2 have "length (drop 4 bs) = length r2 + 4"
    by (rule uint32le.elims) auto
  moreover from rest have "length (drop len r2) = length rest + 4"
    by (rule uint32le.elims) auto
  ultimately have "length rest < length bs" by simp
  then show "(rest, bs) \<in> measure length" by simp
qed

text \<open>\<^verbatim>\<open>fileParser\<close>: \<^verbatim>\<open>buffer('signature', { length: 8 })\<close>, \<^verbatim>\<open>uint32('version')\<close>,
  \<^verbatim>\<open>array('blocks', { type: blockParser, readUntil: 'eof' })\<close>.\<close>

definition fileParser :: "Buffer \<Rightarrow> error + AliveCorFile" where
  "fileParser input =
     (case buffer_fixed 8 input of
        Inl e \<Rightarrow> Inl e
      | Inr (sig, r1) \<Rightarrow>
          (case uint32le r1 of
             Inl e \<Rightarrow> Inl e
           | Inr (ver, r2) \<Rightarrow>
               (case blocks_until_eof r2 of
                  Inl e \<Rightarrow> Inl e
                | Inr bl \<Rightarrow> Inr \<lparr>signature = sig, version = ver, blocks = bl\<rparr>)))"

declare int16le_until_eof.simps [simp del]
declare ticks_until_eof.simps [simp del]
declare blocks_until_eof.simps [simp del]

section \<open>parse\<close>

text \<open>\<^verbatim>\<open>parsed.blocks.find((b) => b.identifier === type)\<close>, the expression by which every
  block is looked up: the first element of the array that satisfies the test, or
  \<^verbatim>\<open>undefined\<close>.\<close>

definition find_block :: "AliveCorBlock list \<Rightarrow> string \<Rightarrow> AliveCorBlock option" where
  "find_block bl type = find (\<lambda>b. identifier b = type) bl"

definition parseFileWithBufferBlocks :: "Buffer \<Rightarrow> error + AliveCorFile" where
  "parseFileWithBufferBlocks input =
     (case fileParser input of
        Inl e \<Rightarrow> Inl e
      | Inr parsed \<Rightarrow>
          if toHex (signature parsed) \<noteq> ''414c495645000000'' then Inl NotAnAliveCorEcgFile
          else if version parsed \<noteq> 4 then Inl UnsupportedAliveCorEcgFile
          else Inr parsed)"

definition parseInfoBlock :: "AliveCorFile \<Rightarrow> error + AliveCorEcgInfo" where
  "parseInfoBlock parsed =
     (case find_block (blocks parsed) ''info'' of
        None \<Rightarrow> Inl NoInfoBlock
      | Some infoBlock \<Rightarrow> run_parser infoBlockParser (contents infoBlock))"

definition parseFormatBlock :: "AliveCorFile \<Rightarrow> error + AliveCorEcgFormat" where
  "parseFormatBlock parsed =
     (case find_block (blocks parsed) ''fmt '' of
        None \<Rightarrow> Inl NoFormatBlock
      | Some formatBlock \<Rightarrow> run_parser formatBlockParser (contents formatBlock))"

text \<open>The two optional lookups return \<^verbatim>\<open>undefined\<close>, here \<open>None\<close>, when the block is
  not there.\<close>

definition parseAnnotationBlock :: "AliveCorFile \<Rightarrow> error + AliveCorEcgAnnotation option" where
  "parseAnnotationBlock parsed =
     (case find_block (blocks parsed) ''ann '' of
        None \<Rightarrow> Inr None
      | Some annotationBlock \<Rightarrow>
          (case annotationBlockParser (contents annotationBlock) of
             Inl e \<Rightarrow> Inl e
           | Inr a \<Rightarrow> Inr (Some a)))"

definition parseLeadBlock :: "AliveCorFile \<Rightarrow> string \<Rightarrow> error + int list option" where
  "parseLeadBlock parsed type =
     (case find_block (blocks parsed) type of
        None \<Rightarrow> Inr None
      | Some leadBlock \<Rightarrow>
          (case leadBlockParser (contents leadBlock) of
             Inl e \<Rightarrow> Inl e
           | Inr d \<Rightarrow> Inr (Some d)))"

text \<open>The table of block types and lead names that \<^verbatim>\<open>parse\<close> maps over.\<close>

definition lead_table :: "(string \<times> string) list" where
  "lead_table =
     [(''ecg '', ''leadI''), (''ecg2'', ''leadII''), (''ecg3'', ''leadIII''),
      (''ecg4'', ''aVR''), (''ecg5'', ''aVL''), (''ecg6'', ''aVF'')]"

text \<open>\<^verbatim>\<open>.map(([type, name]) => ({ name, data: parseLeadBlock(type) }))\<close>: the table is
  walked in order and the first exception ends the walk.\<close>

fun map_leads :: "AliveCorFile \<Rightarrow> (string \<times> string) list \<Rightarrow> error + (string \<times> int list option) list" where
  "map_leads parsed [] = Inr []"
| "map_leads parsed ((type, name) # tbl) =
     (case parseLeadBlock parsed type of
        Inl e \<Rightarrow> Inl e
      | Inr d \<Rightarrow>
          (case map_leads parsed tbl of
             Inl e \<Rightarrow> Inl e
           | Inr ds \<Rightarrow> Inr ((name, d) # ds)))"

text \<open>\<^verbatim>\<open>.filter(({ data }) => data)\<close> keeps the entries whose data is truthy: every array,
  the empty one too, and not \<^verbatim>\<open>undefined\<close>.\<close>

definition filter_leads :: "(string \<times> int list option) list \<Rightarrow> (string \<times> int list option) list" where
  "filter_leads ds = filter (\<lambda>i. snd i \<noteq> None) ds"

text \<open>\<^verbatim>\<open>.reduce((acc, i) => ({ ...acc, [i.name]: i.data }), {})\<close>: a key that the object
  has keeps its place and takes the new value, a new key comes last. No entry reaches
  the \<open>None\<close> case after the filter.\<close>

definition reduce_leads :: "(string \<times> int list option) list \<Rightarrow> AliveCorEcgLeads" where
  "reduce_leads ds =
     foldl (\<lambda>acc i. case snd i of Some d \<Rightarrow> AList.update (fst i) d acc | None \<Rightarrow> acc) [] ds"

text \<open>\<^verbatim>\<open>parse\<close>. Its inner functions read the constant \<^verbatim>\<open>parsed\<close> of the enclosing
  call; here they take it as an argument. The calls are made in the order of the source:
  the container, \<^verbatim>\<open>parseInfoBlock\<close>, \<^verbatim>\<open>parseFormatBlock\<close>, \<^verbatim>\<open>parseAnnotationBlock\<close>,
  the test of \<^verbatim>\<open>format.ecgFormat\<close>, the leads. \<^verbatim>\<open>...(annotation ? { annotation } : {})\<close>
  gives the record an \<^verbatim>\<open>annotation\<close> exactly when the block was there.\<close>

definition parse :: "Buffer \<Rightarrow> error + AliveCorEcg" where
  "parse input =
     (case parseFileWithBufferBlocks input of Inl e \<Rightarrow> Inl e | Inr parsed \<Rightarrow>
      case parseInfoBlock parsed of Inl e \<Rightarrow> Inl e | Inr i \<Rightarrow>
      case parseFormatBlock parsed of Inl e \<Rightarrow> Inl e | Inr f \<Rightarrow>
      case parseAnnotationBlock parsed of Inl e \<Rightarrow> Inl e | Inr a \<Rightarrow>
      if ecgFormat f \<noteq> 1 then Inl UnsupportedEcgFormat
      else
        case map_leads parsed lead_table of Inl e \<Rightarrow> Inl e | Inr ds \<Rightarrow>
        Inr \<lparr>fileVersion = ''1.6'', info = i, format = f,
             leads = reduce_leads (filter_leads ds), annotation = a\<rparr>)"

section \<open>Values at a position of a buffer\<close>

text \<open>The results of the parsers are stated below by position in the content: the
  unsigned little-endian 16-bit and 32-bit values and the signed 16-bit value whose first
  byte is at index \<open>i\<close>, and the text of the \<open>n\<close> bytes from index \<open>start\<close>. \<open>take\<close> and
  \<open>drop\<close> stop at the end of the buffer, as \<^verbatim>\<open>subarray\<close> does.\<close>

definition le_uint16_at :: "Buffer \<Rightarrow> nat \<Rightarrow> nat" where
  "le_uint16_at bs i = unat (bs ! i) + 256 * unat (bs ! (i + 1))"

definition le_uint32_at :: "Buffer \<Rightarrow> nat \<Rightarrow> nat" where
  "le_uint32_at bs i =
     unat (bs ! i) + 256 * unat (bs ! (i + 1)) + 65536 * unat (bs ! (i + 2))
       + 16777216 * unat (bs ! (i + 3))"

definition signed16 :: "nat \<Rightarrow> int" where
  "signed16 u = (if u < 32768 then int u else int u - 65536)"

definition le_int16_at :: "Buffer \<Rightarrow> nat \<Rightarrow> int" where
  "le_int16_at bs i = signed16 (le_uint16_at bs i)"

definition text_field :: "Buffer \<Rightarrow> nat \<Rightarrow> nat \<Rightarrow> string" where
  "text_field bs start n = trimString (stripNull (decodeText (take n (drop start bs))))"

text \<open>The eight bytes whose hexadecimal form is \<^verbatim>\<open>414c495645000000\<close>.\<close>

definition alivecor_signature :: Buffer where
  "alivecor_signature = [0x41, 0x4C, 0x49, 0x56, 0x45, 0x00, 0x00, 0x00]"

text \<open>The block types that \<^verbatim>\<open>parse\<close> looks up, and the blocks that have one of them.\<close>

definition block_types :: "string list" where
  "block_types = ''info'' # ''fmt '' # ''ann '' # map fst lead_table"

definition recognized :: "AliveCorBlock \<Rightarrow> bool" where
  "recognized b = (identifier b \<in> set block_types)"

text \<open>The data of a lead whose block decodes, and \<open>None\<close> otherwise.\<close>

definition lead_data :: "AliveCorFile \<Rightarrow> string \<Rightarrow> int list option" where
  "lead_data parsed type = (case parseLeadBlock parsed type of Inl e \<Rightarrow> None | Inr d \<Rightarrow> d)"

text \<open>The properties of the format object as JavaScript values: a number or a boolean,
  as the reader and the formatter of each field make it. \<^verbatim>\<open>===\<close> between a number and a
  boolean is false.\<close>

datatype jsvalue = JSNumber int | JSBoolean bool

definition format_property :: "AliveCorEcgFormat \<Rightarrow> string \<Rightarrow> jsvalue option" where
  "format_property f name =
     map_of
       [(''ecgFormat'', JSNumber (int (ecgFormat f))),
        (''samplingRateHz'', JSNumber (int (samplingRateHz f))),
        (''amplitudeResolutionNV'', JSNumber (int (amplitudeResolutionNV f))),
        (''polarity'', JSNumber (int (polarity f))),
        (''mainsFrequency'', JSNumber (int (mainsFrequency f))),
        (''mainsFilter'', JSBoolean (mainsFilter f)),
        (''lowPassFilter'', JSBoolean (lowPassFilter f)),
        (''baseLineFilter'', JSBoolean (baseLineFilter f)),
        (''notchMainsFilter'', JSBoolean (notchMainsFilter f)),
        (''enhancedFilter'', JSBoolean (enhancedFilter f)),
        (''unused'', JSNumber (int (unused f))),
        (''reserved'', JSNumber (int (reserved f)))] name"

section \<open>Example files\<close>

text \<open>The file of the round trip: the header, a \<^verbatim>\<open>fmt \<close> block (format 1, 300 Hz,
  1000 nV, flags \<^verbatim>\<open>0x05\<close>, reserved 0), an \<^verbatim>\<open>info\<close> block with the content \<open>ic\<close> and
  the declared length 264, and an \<^verbatim>\<open>ecg \<close> block with the bytes
  \<^verbatim>\<open>64 00 38 FF 2C 01\<close>; \<open>k1\<close>, \<open>k2\<close> and \<open>k3\<close> are the three checksums.\<close>

definition round_trip_file :: "Buffer \<Rightarrow> Buffer \<Rightarrow> Buffer \<Rightarrow> Buffer \<Rightarrow> Buffer" where
  "round_trip_file ic k1 k2 k3 =
     [0x41, 0x4C, 0x49, 0x56, 0x45, 0x00, 0x00, 0x00,  0x04, 0x00, 0x00, 0x00] @
     [0x66, 0x6D, 0x74, 0x20,  0x08, 0x00, 0x00, 0x00,
      0x01, 0x2C, 0x01, 0xE8, 0x03, 0x05, 0x00, 0x00] @ k1 @
     [0x69, 0x6E, 0x66, 0x6F,  0x08, 0x01, 0x00, 0x00] @ ic @ k2 @
     [0x65, 0x63, 0x67, 0x20,  0x06, 0x00, 0x00, 0x00,
      0x64, 0x00, 0x38, 0xFF, 0x2C, 0x01] @ k3"

text \<open>An \<^verbatim>\<open>info\<close> content of 264 bytes: seven texts, each padded with NUL bytes to the
  length of its field.\<close>

definition null_padded :: "nat \<Rightarrow> string \<Rightarrow> Buffer" where
  "null_padded n s = map of_char s @ replicate (n - length s) 0"

definition sample_info :: Buffer where
  "sample_info =
     null_padded 32 ''2020-01-01T10:00:00'' @
     null_padded 40 ''0f8fad5b-d9cb-469f-a165-70867728950e'' @
     null_padded 44 ''7c9e6679-7425-40de-944b-e07fc1f90ae7'' @
     null_padded 32 ''iPhone'' @
     null_padded 32 ''Kardia'' @
     null_padded 32 ''AliveCor'' @
     null_padded 52 ''''"

text \<open>The blocks of the other example files, as \<^verbatim>\<open>fileParser\<close> returns them, and what
  their contents decode to.\<close>

definition info_block :: AliveCorBlock where
  "info_block = \<lparr>identifier = ''info'', block_length = 5,
     contents = [0x68, 0x65, 0x6C, 0x6C, 0x6F], checksum = 0\<rparr>"

definition fmt_block :: AliveCorBlock where
  "fmt_block = \<lparr>identifier = ''fmt '', block_length = 8,
     contents = [0x01, 0x2C, 0x01, 0xE8, 0x03, 0x05, 0x00, 0x00], checksum = 0\<rparr>"

definition fmt2_block :: AliveCorBlock where
  "fmt2_block = \<lparr>identifier = ''fmt '', block_length = 8,
     contents = [0x02, 0x2C, 0x01, 0xE8, 0x03, 0x05, 0x00, 0x00], checksum = 0\<rparr>"

definition ecg_block :: AliveCorBlock where
  "ecg_block = \<lparr>identifier = ''ecg '', block_length = 6,
     contents = [0x64, 0x00, 0x38, 0xFF, 0x2C, 0x01], checksum = 0\<rparr>"

definition odd_ecg_block :: AliveCorBlock where
  "odd_ecg_block = \<lparr>identifier = ''ecg '', block_length = 5,
     contents = [0x64, 0x00, 0x38, 0xFF, 0x2C], checksum = 0\<rparr>"

definition empty_ecg_block :: AliveCorBlock where
  "empty_ecg_block = \<lparr>identifier = ''ecg '', block_length = 0, contents = [], checksum = 0\<rparr>"

definition partial_ann_block :: AliveCorBlock where
  "partial_ann_block = \<lparr>identifier = ''ann '', block_length = 19,
     contents = [0x2C, 0x01, 0x00, 0x00,
                 0x64, 0x00, 0x00, 0x00, 0x01, 0x00,
                 0x90, 0x01, 0x00, 0x00, 0x02, 0x00,
                 0xF4, 0x01, 0x00], checksum = 0\<rparr>"

definition xtra_block :: AliveCorBlock where
  "xtra_block = \<lparr>identifier = ''xtra'', block_length = 3,
     contents = [0x01, 0x02, 0x03], checksum = 0\<rparr>"

definition upper_info_block :: AliveCorBlock where
  "upper_info_block = \<lparr>identifier = ''INFO'', block_length = 1,
     contents = [0x09], checksum = 0\<rparr>"

definition info_decoded :: AliveCorEcgInfo where
  "info_decoded = \<lparr>dateRecorded = ''hello'', recordingUuid = '''', mobilePhoneUuid = '''',
     mobilePhoneModel = '''', recorderSoftware = '''', recorderHardware = '''',
     deviceData = ''''\<rparr>"

definition fmt_decoded :: AliveCorEcgFormat where
  "fmt_decoded = \<lparr>ecgFormat = 1, samplingRateHz = 300, amplitudeResolutionNV = 1000,
     polarity = 1, mainsFrequency = 50, mainsFilter = True, lowPassFilter = False,
     baseLineFilter = False, notchMainsFilter = False, enhancedFilter = False,
     unused = 0, reserved = 0\<rparr>"


text \<open>A file whose \<^verbatim>\<open>info\<close> block has a content of 5 bytes, the text \<^verbatim>\<open>hello\<close>.\<close>

definition short_info_file :: Buffer where
  "short_info_file =
     [0x41, 0x4C, 0x49, 0x56, 0x45, 0x00, 0x00, 0x00,  0x04, 0x00, 0x00, 0x00,
      0x69, 0x6E, 0x66, 0x6F,  0x05, 0x00, 0x00, 0x00,
        0x68, 0x65, 0x6C, 0x6C, 0x6F,  0x00, 0x00, 0x00, 0x00,
      0x66, 0x6D, 0x74, 0x20,  0x08, 0x00, 0x00, 0x00,
        0x01, 0x2C, 0x01, 0xE8, 0x03, 0x05, 0x00, 0x00,  0x00, 0x00, 0x00, 0x00,
      0x65, 0x63, 0x67, 0x20,  0x06, 0x00, 0x00, 0x00,
        0x64, 0x00, 0x38, 0xFF, 0x2C, 0x01,  0x00, 0x00, 0x00, 0x00]"

definition short_info_parsed :: AliveCorFile where
  "short_info_parsed = \<lparr>signature = alivecor_signature, version = 4,
     blocks = [info_block, fmt_block, ecg_block]\<rparr>"

definition short_info_decoded :: AliveCorEcg where
  "short_info_decoded = \<lparr>fileVersion = ''1.6'', info = info_decoded, format = fmt_decoded,
     leads = [(''leadI'', [100, - 200, 300])], annotation = None\<rparr>"

text \<open>The same file with blocks of other types before, between and after its blocks.\<close>

definition xtra_file :: Buffer where
  "xtra_file =
     [0x41, 0x4C, 0x49, 0x56, 0x45, 0x00, 0x00, 0x00,  0x04, 0x00, 0x00, 0x00,
      0x78, 0x74, 0x72, 0x61,  0x03, 0x00, 0x00, 0x00,
        0x01, 0x02, 0x03,  0x00, 0x00, 0x00, 0x00,
      0x69, 0x6E, 0x66, 0x6F,  0x05, 0x00, 0x00, 0x00,
        0x68, 0x65, 0x6C, 0x6C, 0x6F,  0x00, 0x00, 0x00, 0x00,
      0x49, 0x4E, 0x46, 0x4F,  0x01, 0x00, 0x00, 0x00,
        0x09,  0x00, 0x00, 0x00, 0x00,
      0x66, 0x6D, 0x74, 0x20,  0x08, 0x00, 0x00, 0x00,
        0x01, 0x2C, 0x01, 0xE8, 0x03, 0x05, 0x00, 0x00,  0x00, 0x00, 0x00, 0x00,
      0x65, 0x63, 0x67, 0x20,  0x06, 0x00, 0x00, 0x00,
        0x64, 0x00, 0x38, 0xFF, 0x2C, 0x01,  0x00, 0x00, 0x00, 0x00,
      0x78, 0x74, 0x72, 0x61,  0x03, 0x00, 0x00, 0x00,
        0x01, 0x02, 0x03,  0x00, 0x00, 0x00, 0x00]"

definition xtra_parsed :: AliveCorFile where
  "xtra_parsed = \<lparr>signature = alivecor_signature, version = 4,
     blocks = [xtra_block, info_block, upper_info_block, fmt_block, ecg_block, xtra_block]\<rparr>"

text \<open>A file whose \<^verbatim>\<open>ecg \<close> block has a content of 5 bytes.\<close>

definition odd_lead_file :: Buffer where
  "odd_lead_file =
     [0x41, 0x4C, 0x49, 0x56, 0x45, 0x00, 0x00, 0x00,  0x04, 0x00, 0x00, 0x00,
      0x69, 0x6E, 0x66, 0x6F,  0x05, 0x00, 0x00, 0x00,
        0x68, 0x65, 0x6C, 0x6C, 0x6F,  0x00, 0x00, 0x00, 0x00,
      0x66, 0x6D, 0x74, 0x20,  0x08, 0x00, 0x00, 0x00,
        0x01, 0x2C, 0x01, 0xE8, 0x03, 0x05, 0x00, 0x00,  0x00, 0x00, 0x00, 0x00,
      0x65, 0x63, 0x67, 0x20,  0x05, 0x00, 0x00, 0x00,
        0x64, 0x00, 0x38, 0xFF, 0x2C,  0x00, 0x00, 0x00, 0x00]"

definition odd_lead_parsed :: AliveCorFile where
  "odd_lead_parsed = \<lparr>signature = alivecor_signature, version = 4,
     blocks = [info_block, fmt_block, odd_ecg_block]\<rparr>"

text \<open>A file whose \<^verbatim>\<open>ecg \<close> block declares the length 0.\<close>

definition empty_lead_file :: Buffer where
  "empty_lead_file =
     [0x41, 0x4C, 0x49, 0x56, 0x45, 0x00, 0x00, 0x00,  0x04, 0x00, 0x00, 0x00,
      0x69, 0x6E, 0x66, 0x6F,  0x05, 0x00, 0x00, 0x00,
        0x68, 0x65, 0x6C, 0x6C, 0x6F,  0x00, 0x00, 0x00, 0x00,
      0x66, 0x6D, 0x74, 0x20,  0x08, 0x00, 0x00, 0x00,
        0x01, 0x2C, 0x01, 0xE8, 0x03, 0x05, 0x00, 0x00,  0x00, 0x00, 0x00, 0x00,
      0x65, 0x63, 0x67, 0x20,  0x00, 0x00, 0x00, 0x00,  0x00, 0x00, 0x00, 0x00]"

definition empty_lead_parsed :: AliveCorFile where
  "empty_lead_parsed = \<lparr>signature = alivecor_signature, version = 4,
     blocks = [info_block, fmt_block, empty_ecg_block]\<rparr>"

text \<open>A file whose \<^verbatim>\<open>ann \<close> block has a content of 4 + 6 * 2 + 3 bytes.\<close>

definition partial_tick_file :: Buffer where
  "partial_tick_file =
     [0x41, 0x4C, 0x49, 0x56, 0x45, 0x00, 0x00, 0x00,  0x04, 0x00, 0x00, 0x00,
      0x69, 0x6E, 0x66, 0x6F,  0x05, 0x00, 0x00, 0x00,
        0x68, 0x65, 0x6C, 0x6C, 0x6F,  0x00, 0x00, 0x00, 0x00,
      0x66, 0x6D, 0x74, 0x20,  0x08, 0x00, 0x00, 0x00,
        0x01, 0x2C, 0x01, 0xE8, 0x03, 0x05, 0x00, 0x00,  0x00, 0x00, 0x00, 0x00,
      0x61, 0x6E, 0x6E, 0x20,  0x13, 0x00, 0x00, 0x00,
        0x2C, 0x01, 0x00, 0x00,
        0x64, 0x00, 0x00, 0x00, 0x01, 0x00,
        0x90, 0x01, 0x00, 0x00, 0x02, 0x00,
        0xF4, 0x01, 0x00,  0x00, 0x00, 0x00, 0x00,
      0x65, 0x63, 0x67, 0x20,  0x06, 0x00, 0x00, 0x00,
        0x64, 0x00, 0x38, 0xFF, 0x2C, 0x01,  0x00, 0x00, 0x00, 0x00]"

definition partial_tick_parsed :: AliveCorFile where
  "partial_tick_parsed = \<lparr>signature = alivecor_signature, version = 4,
     blocks = [info_block, fmt_block, partial_ann_block, ecg_block]\<rparr>"





text \<open>Two inputs that start with \<^verbatim>\<open>BLIVE\<close>: the first has the version 4 and ends inside
  the identifier of a block; the second has the version 7 and one whole block.\<close>

definition bad_signature_truncated :: Buffer where
  "bad_signature_truncated =
     [0x42, 0x4C, 0x49, 0x56, 0x45, 0x00, 0x00, 0x00,  0x04, 0x00, 0x00, 0x00,
      0x66, 0x6D, 0x74]"

definition bad_signature_file :: Buffer where
  "bad_signature_file =
     [0x42, 0x4C, 0x49, 0x56, 0x45, 0x00, 0x00, 0x00,  0x07, 0x00, 0x00, 0x00,
      0x78, 0x74, 0x72, 0x61,  0x02, 0x00, 0x00, 0x00,  0x01, 0x02,  0x00, 0x00, 0x00, 0x00]"

section \<open>The readers by position\<close>

lemma uint8_eq:
  "uint8 bs = (if 1 \<le> length bs then Inr (unat (bs ! 0), drop 1 bs) else Inl RangeError)"
  by (cases bs) auto

lemma uint16le_eq:
  "uint16le bs = (if 2 \<le> length bs then Inr (le_uint16_at bs 0, drop 2 bs) else Inl RangeError)"
  by (cases bs rule: uint16le.cases) (auto simp: le_uint16_at_def)

lemma uint32le_eq:
  "uint32le bs = (if 4 \<le> length bs then Inr (le_uint32_at bs 0, drop 4 bs) else Inl RangeError)"
  by (cases bs rule: uint32le.cases) (auto simp: le_uint32_at_def)

lemma uint32le_append:
  "length k = 4 \<Longrightarrow> uint32le (k @ rest) = Inr (le_uint32_at k 0, rest)"
  by (simp add: uint32le_eq le_uint32_at_def nth_append)

lemma uint32le_exact:
  "length k = 4 \<Longrightarrow> uint32le k = Inr (le_uint32_at k 0, [])"
  by (simp add: uint32le_eq)

text \<open>The 16-bit word of two bytes, read unsigned and signed.\<close>

lemma uint_word_cat_bytes:
  "uint (word_cat (hi::byte) (lo::byte) :: 16 word) = uint lo + 256 * uint hi"
proof -
  have h: "uint hi < 256" and l: "uint lo < 256"
    using uint_lt2p [of hi] uint_lt2p [of lo] by simp_all
  have "uint (word_cat hi lo :: 16 word) = (256 * uint hi + uint lo) mod 65536"
    by (simp add: word_cat_eq uint_word_ariths push_bit_eq_mult uint_up_ucast is_up
        take_bit_eq_mod mod_simps mult.commute)
  also have "\<dots> = 256 * uint hi + uint lo"
    using h l uint_ge_0 [of hi] uint_ge_0 [of lo] by (intro mod_pos_pos_trivial) auto
  finally show ?thesis by simp
qed

lemma sint_word16:
  "sint (w :: 16 word) = (if uint w < 32768 then uint w else uint w - 65536)"
proof -
  have b: "0 \<le> uint w" "uint w < 65536" using uint_lt2p [of w] by simp_all
  have "sint w = (uint w + 32768) mod 65536 - 32768"
    by (simp add: sint_uint signed_take_bit_eq_take_bit_shift take_bit_eq_mod)
  moreover have "uint w < 32768 \<Longrightarrow> (uint w + 32768) mod 65536 = uint w + 32768"
    using b by (intro mod_pos_pos_trivial) auto
  moreover have "\<not> uint w < 32768 \<Longrightarrow> (uint w + 32768) mod 65536 = uint w - 32768"
  proof -
    assume "\<not> uint w < 32768"
    then have "(uint w - 32768) mod 65536 = uint w - 32768"
      using b by (intro mod_pos_pos_trivial) auto
    moreover have "uint w + 32768 = (uint w - 32768) + 65536" by simp
    ultimately show ?thesis by (metis mod_add_self2)
  qed
  ultimately show ?thesis by auto
qed

lemma sint_word_cat_bytes:
  "sint (word_cat (hi::byte) (lo::byte) :: 16 word) = signed16 (unat lo + 256 * unat hi)"
proof -
  define u where "u = unat lo + 256 * unat hi"
  have "uint (word_cat hi lo :: 16 word) = int u"
    by (simp add: uint_word_cat_bytes u_def)
  then have "sint (word_cat hi lo :: 16 word) = signed16 u"
    by (simp add: sint_word16 signed16_def)
  then show ?thesis by (simp add: u_def)
qed

lemma int16le_eq:
  "int16le bs = (if 2 \<le> length bs then Inr (le_int16_at bs 0, drop 2 bs) else Inl RangeError)"
  by (cases bs rule: int16le.cases)
    (auto simp: le_int16_at_def le_uint16_at_def sint_word_cat_bytes)

lemma le_uint16_at_drop:
  "n \<le> length bs \<Longrightarrow> le_uint16_at (drop n bs) i = le_uint16_at bs (n + i)"
  by (simp add: le_uint16_at_def add.assoc)

lemma le_uint32_at_drop:
  "n \<le> length bs \<Longrightarrow> le_uint32_at (drop n bs) i = le_uint32_at bs (n + i)"
  by (simp add: le_uint32_at_def add.assoc)

lemma le_int16_at_drop:
  "n \<le> length bs \<Longrightarrow> le_int16_at (drop n bs) i = le_int16_at bs (n + i)"
  by (simp add: le_int16_at_def le_uint16_at_drop)

section \<open>The arrays read until the end of the buffer\<close>

lemma int16le_until_eof_Nil: "int16le_until_eof [] = Inr []"
  by (simp add: int16le_until_eof.simps)

lemma int16le_until_eof_Cons:
  "int16le_until_eof (b # bs) =
     (case int16le (b # bs) of
        Inl e \<Rightarrow> Inl e
      | Inr (v, rest) \<Rightarrow>
          (case int16le_until_eof rest of Inl e \<Rightarrow> Inl e | Inr vs \<Rightarrow> Inr (v # vs)))"
  by (subst int16le_until_eof.simps) simp

lemma ticks_until_eof_Nil: "ticks_until_eof [] = Inr []"
  by (simp add: ticks_until_eof.simps)

lemma blocks_until_eof_Nil: "blocks_until_eof [] = Inr []"
  by (simp add: blocks_until_eof.simps)

lemma blocks_until_eof_Cons:
  "blocks_until_eof (b # bs) =
     (case blockParser (b # bs) of
        Inl e \<Rightarrow> Inl e
      | Inr (t, rest) \<Rightarrow>
          (case blocks_until_eof rest of Inl e \<Rightarrow> Inl e | Inr ts \<Rightarrow> Inr (t # ts)))"
  by (subst blocks_until_eof.simps) simp

lemma int16le_until_eof_eq:
  "int16le_until_eof bs =
     (if even (length bs) then Inr (map (\<lambda>k. le_int16_at bs (2 * k)) [0..<length bs div 2])
      else Inl RangeError)"
proof (induction bs rule: int16le_until_eof.induct)
  case (1 bs)
  show ?case
  proof (cases "length bs < 2")
    case True
    then have "bs = [] \<or> (\<exists>b. bs = [b])"
      by (cases bs) (auto simp: length_Suc_conv)
    then show ?thesis
      by (auto simp: int16le_until_eof_Nil int16le_until_eof_Cons)
  next
    case False
    then have len: "2 \<le> length bs" and ne: "bs \<noteq> []" by auto
    have rd: "int16le bs = Inr (le_int16_at bs 0, drop 2 bs)"
      using len by (simp add: int16le_eq)
    have ih: "int16le_until_eof (drop 2 bs) =
        (if even (length (drop 2 bs))
         then Inr (map (\<lambda>k. le_int16_at (drop 2 bs) (2 * k)) [0..<length (drop 2 bs) div 2])
         else Inl RangeError)"
      using "1.IH" [OF ne rd refl] .
    have unf: "int16le_until_eof bs =
        (case int16le_until_eof (drop 2 bs) of Inl e \<Rightarrow> Inl e
         | Inr vs \<Rightarrow> Inr (le_int16_at bs 0 # vs))"
      using ne rd by (subst int16le_until_eof.simps) simp
    show ?thesis
    proof (cases "even (length bs)")
      case True
      from len obtain n where n: "length bs div 2 = Suc n"
        by (cases "length bs div 2") auto
      have n': "(length bs - 2) div 2 = n" using n len by simp
      have "map (\<lambda>k. le_int16_at bs (2 * k)) [0..<Suc n] =
          le_int16_at bs 0 # map (\<lambda>k. le_int16_at bs (2 * Suc k)) [0..<n]"
        by (simp only: map_upt_Suc) simp
      moreover have "map (\<lambda>k. le_int16_at (drop 2 bs) (2 * k)) [0..<n] =
          map (\<lambda>k. le_int16_at bs (2 * Suc k)) [0..<n]"
        using len by (simp add: le_int16_at_drop)
      ultimately show ?thesis
        using True len unf ih n n' by simp
    next
      case False
      then show ?thesis using len unf ih by simp
    qed
  qed
qed

lemma leadBlockParser_eq:
  "leadBlockParser bs =
     (if even (length bs) then Inr (map (\<lambda>k. le_int16_at bs (2 * k)) [0..<length bs div 2])
      else Inl RangeError)"
  by (simp add: leadBlockParser_def int16le_until_eof_eq)

lemma tickParser_eq:
  "tickParser bs =
     (if 6 \<le> length bs
      then Inr (\<lparr>offset = le_uint32_at bs 0, beatType = le_uint16_at bs 4\<rparr>, drop 6 bs)
      else Inl RangeError)"
proof (cases "6 \<le> length bs")
  case True
  then have "4 \<le> length bs" and "2 \<le> length bs - 4" by simp_all
  then show ?thesis
    using True
    by (simp add: tickParser_def then_read_def result_def uint32le_eq uint16le_eq
        le_uint16_at_drop)
next
  case False
  then have "\<not> (4 \<le> length bs \<and> 2 \<le> length bs - 4)" by arith
  then show ?thesis
    using False
    by (auto simp add: tickParser_def then_read_def result_def uint32le_eq uint16le_eq)
qed

lemma ticks_until_eof_eq:
  "ticks_until_eof bs =
     (if length bs mod 6 = 0
      then Inr (map (\<lambda>k. \<lparr>offset = le_uint32_at bs (6 * k),
                            beatType = le_uint16_at bs (6 * k + 4)\<rparr>)
                  [0..<length bs div 6])
      else Inl RangeError)"
proof (induction bs rule: ticks_until_eof.induct)
  case (1 bs)
  show ?case
  proof (cases "bs = []")
    case True
    then show ?thesis by (simp add: ticks_until_eof_Nil)
  next
    case ne: False
    show ?thesis
    proof (cases "length bs < 6")
      case True
      then have "length bs mod 6 \<noteq> 0" using ne by simp
      then show ?thesis
        using True ne by (subst ticks_until_eof.simps) (simp add: tickParser_eq)
    next
      case False
      then have len: "6 \<le> length bs" by simp
      let ?t = "\<lparr>offset = le_uint32_at bs 0, beatType = le_uint16_at bs 4\<rparr>"
      have rd: "tickParser bs = Inr (?t, drop 6 bs)"
        using len by (simp add: tickParser_eq)
      have ih: "ticks_until_eof (drop 6 bs) =
          (if length (drop 6 bs) mod 6 = 0
           then Inr (map (\<lambda>k. \<lparr>offset = le_uint32_at (drop 6 bs) (6 * k),
                                 beatType = le_uint16_at (drop 6 bs) (6 * k + 4)\<rparr>)
                       [0..<length (drop 6 bs) div 6])
           else Inl RangeError)"
        using "1.IH" [OF ne rd refl] .
      have unf: "ticks_until_eof bs =
          (case ticks_until_eof (drop 6 bs) of Inl e \<Rightarrow> Inl e | Inr ts \<Rightarrow> Inr (?t # ts))"
        using ne rd by (subst ticks_until_eof.simps) simp
      have m: "(length bs - 6) mod 6 = length bs mod 6"
        using len by (simp add: le_mod_geq)
      show ?thesis
      proof (cases "length bs mod 6 = 0")
        case True
        from len obtain n where n: "length bs div 6 = Suc n"
          by (cases "length bs div 6") auto
        have n': "(length bs - 6) div 6 = n" using n len by (simp add: le_div_geq)
        have "map (\<lambda>k. \<lparr>offset = le_uint32_at bs (6 * k),
                          beatType = le_uint16_at bs (6 * k + 4)\<rparr>) [0..<Suc n] =
            ?t # map (\<lambda>k. \<lparr>offset = le_uint32_at bs (6 * Suc k),
                               beatType = le_uint16_at bs (6 * Suc k + 4)\<rparr>) [0..<n]"
          by (simp only: map_upt_Suc) simp
        moreover have "map (\<lambda>k. \<lparr>offset = le_uint32_at (drop 6 bs) (6 * k),
                                    beatType = le_uint16_at (drop 6 bs) (6 * k + 4)\<rparr>) [0..<n] =
            map (\<lambda>k. \<lparr>offset = le_uint32_at bs (6 * Suc k),
                          beatType = le_uint16_at bs (6 * Suc k + 4)\<rparr>) [0..<n]"
          using len by (simp add: le_uint32_at_drop le_uint16_at_drop add.assoc)
        ultimately show ?thesis
          using True unf ih n n' m by simp
      next
        case False
        then show ?thesis using unf ih m by simp
      qed
    qed
  qed
qed

lemma annotationBlockParser_eq:
  "annotationBlockParser bs =
     (if 6 dvd (int (length bs) - 4)
      then Inr \<lparr>tickCountFrequencyHz = le_uint32_at bs 0,
                ticks = map (\<lambda>k. \<lparr>offset = le_uint32_at bs (4 + 6 * k),
                                      beatType = le_uint16_at bs (4 + 6 * k + 4)\<rparr>)
                          [0..<(length bs - 4) div 6]\<rparr>
      else Inl RangeError)"
proof (cases "4 \<le> length bs")
  case False
  define n where "n = length bs"
  from False have "n < 4" by (simp add: n_def)
  then have "\<not> 6 dvd (int n - 4)" by presburger
  then have "\<not> 6 dvd (int (length bs) - 4)" by (simp add: n_def)
  then show ?thesis
    using False by (simp add: annotationBlockParser_def uint32le_eq)
next
  case True
  define m where "m = length bs - 4"
  have "int (length bs) - 4 = int m" using True by (simp add: m_def)
  moreover have "6 dvd int m \<longleftrightarrow> m mod 6 = 0" by presburger
  ultimately have d: "6 dvd (int (length bs) - 4) \<longleftrightarrow> m mod 6 = 0" by (simp only:)
  have rd: "uint32le bs = Inr (le_uint32_at bs 0, drop 4 bs)"
    using True by (simp add: uint32le_eq)
  have conv: "map (\<lambda>k. \<lparr>offset = le_uint32_at (drop 4 bs) (6 * k),
                          beatType = le_uint16_at (drop 4 bs) (6 * k + 4)\<rparr>) [0..<m div 6] =
      map (\<lambda>k. \<lparr>offset = le_uint32_at bs (4 + 6 * k),
                    beatType = le_uint16_at bs (4 + 6 * k + 4)\<rparr>) [0..<m div 6]"
    using True by (simp add: le_uint32_at_drop le_uint16_at_drop add.assoc)
  have tk: "ticks_until_eof (drop 4 bs) =
      (if m mod 6 = 0
       then Inr (map (\<lambda>k. \<lparr>offset = le_uint32_at bs (4 + 6 * k),
                             beatType = le_uint16_at bs (4 + 6 * k + 4)\<rparr>) [0..<m div 6])
       else Inl RangeError)"
    using ticks_until_eof_eq [of "drop 4 bs"] conv by (simp add: m_def)
  show ?thesis
  proof (cases "m mod 6 = 0")
    case True
    then show ?thesis
      using d rd tk by (simp add: annotationBlockParser_def m_def)
  next
    case False
    then show ?thesis
      using d rd tk by (simp add: annotationBlockParser_def)
  qed
qed

lemma infoBlockParser_eq:
  "run_parser infoBlockParser bs =
     Inr \<lparr>dateRecorded = text_field bs 0 32,
          recordingUuid = text_field bs 32 40,
          mobilePhoneUuid = text_field bs 72 44,
          mobilePhoneModel = text_field bs 116 32,
          recorderSoftware = text_field bs 148 32,
          recorderHardware = text_field bs 180 32,
          deviceData = text_field bs 212 52\<rparr>"
  by (simp add: run_parser_def infoBlockParser_def then_read_def result_def
      string_stripped_def text_field_def)

lemma text_field_past_end: "length bs \<le> start \<Longrightarrow> text_field bs start n = []"
  by (simp add: text_field_def stripNull_def trimString_def decodeText_def)

section \<open>The container\<close>

lemma blockParser_eq:
  "blockParser bs =
     (if 8 \<le> length bs \<and> le_uint32_at bs 4 + 12 \<le> length bs
      then Inr (\<lparr>identifier = decodeText (take 4 bs), block_length = le_uint32_at bs 4,
                  contents = take (le_uint32_at bs 4) (drop 8 bs),
                  checksum = le_uint32_at bs (8 + le_uint32_at bs 4)\<rparr>,
                drop (le_uint32_at bs 4 + 12) bs)
      else Inl RangeError)"
proof (cases "8 \<le> length bs")
  case False
  then have "\<not> 4 \<le> length bs - 4" by arith
  then show ?thesis
    using False
    by (simp add: blockParser_def then_read_def result_def string_fixed_def buffer_fixed_def
        uint32le_eq)
next
  case True
  then have a: "4 \<le> length bs - 4" by arith
  define n where "n = le_uint32_at bs 4"
  have l: "le_uint32_at (drop 4 bs) 0 = n"
    using True by (simp add: le_uint32_at_drop n_def)
  show ?thesis
  proof (cases "n + 12 \<le> length bs")
    case False
    then have "\<not> 4 \<le> length bs - (n + 8)" by arith
    then show ?thesis
      using True False a l
      by (simp add: blockParser_def then_read_def result_def string_fixed_def buffer_fixed_def
          uint32le_eq n_def [symmetric])
  next
    case le: True
    then have b: "4 \<le> length bs - (n + 8)" by arith
    have c: "le_uint32_at (drop (n + 8) bs) 0 = le_uint32_at bs (8 + n)"
      using le by (simp add: le_uint32_at_drop add.commute)
    have e: "4 + (n + 8) = n + 12" by simp
    show ?thesis
      using True le a b l c e
      by (simp add: blockParser_def then_read_def result_def string_fixed_def buffer_fixed_def
          uint32le_eq n_def [symmetric] add.commute)
  qed
qed

lemma blockParser_error: "blockParser bs = Inl e \<Longrightarrow> e = RangeError"
  by (simp add: blockParser_eq split: if_splits)

lemma blocks_until_eof_error: "blocks_until_eof bs = Inl e \<Longrightarrow> e = RangeError"
proof (induction bs rule: blocks_until_eof.induct)
  case (1 bs)
  from "1.prems" show ?case
    by (subst (asm) blocks_until_eof.simps)
      (auto split: if_splits sum.splits prod.splits dest: blockParser_error "1.IH")
qed

lemma fileParser_error: "fileParser input = Inl e \<Longrightarrow> e = RangeError"
  by (auto simp: fileParser_def buffer_fixed_def uint32le_eq
      split: sum.splits if_splits dest: blocks_until_eof_error)

lemma fileParser_Inr:
  "fileParser input = Inr p \<Longrightarrow>
     12 \<le> length input \<and> signature p = take 8 input \<and> version p = le_uint32_at input 8 \<and>
     blocks_until_eof (drop 12 input) = Inr (blocks p)"
  by (auto simp: fileParser_def buffer_fixed_def uint32le_eq le_uint32_at_drop
      split: sum.splits if_splits)

lemma blocks_until_eof_invariant:
  "blocks_until_eof bs = Inr bl \<Longrightarrow> b \<in> set bl \<Longrightarrow>
     length (identifier b) = 4 \<and> length (contents b) = block_length b"
proof (induction bs arbitrary: bl rule: blocks_until_eof.induct)
  case (1 bs)
  show ?case
  proof (cases "bs = []")
    case True
    with "1.prems" show ?thesis by (simp add: blocks_until_eof_Nil)
  next
    case False
    from "1.prems"(1) False obtain b0 rest bl' where
        rd: "blockParser bs = Inr (b0, rest)" and
        tl: "blocks_until_eof rest = Inr bl'" and
        bl: "bl = b0 # bl'"
      by (subst (asm) blocks_until_eof.simps) (auto split: sum.splits prod.splits)
    from rd have "length (identifier b0) = 4 \<and> length (contents b0) = block_length b0"
      by (auto simp: blockParser_eq decodeText_def split: if_splits)
    moreover have "b \<in> set bl' \<Longrightarrow>
        length (identifier b) = 4 \<and> length (contents b) = block_length b"
      using "1.IH" [OF False rd refl tl] .
    ultimately show ?thesis using "1.prems"(2) bl by auto
  qed
qed

section \<open>The signature in hexadecimal\<close>

lemma hexDigit_inj: "m < 16 \<Longrightarrow> n < 16 \<Longrightarrow> hexDigit m = hexDigit n \<Longrightarrow> m = n"
proof -
  assume m: "m < 16" and n: "n < 16" and eq: "hexDigit m = hexDigit n"
  have d: "distinct ''0123456789abcdef''" by simp
  have l: "length ''0123456789abcdef'' = 16" by simp
  from eq show "m = n"
    unfolding hexDigit_def using nth_eq_iff_index_eq [OF d, of m n] m n l by simp
qed

lemma hex_byte_inj:
  fixes x y :: byte
  assumes "hexDigit (unat x div 16) = hexDigit (unat y div 16)"
    and "hexDigit (unat x mod 16) = hexDigit (unat y mod 16)"
  shows "x = y"
proof -
  have bx: "unat x < 256" using unsigned_less [of x] by simp
  have by': "unat y < 256" using unsigned_less [of y] by simp
  have "unat x div 16 = unat y div 16"
    using assms(1) bx by' by (intro hexDigit_inj) simp_all
  moreover have "unat x mod 16 = unat y mod 16"
    using assms(2) by (intro hexDigit_inj) simp_all
  ultimately have "unat x = unat y"
    by (metis div_mult_mod_eq)
  then show ?thesis by (simp add: word_unat_eq_iff)
qed

lemma toHex_inj: "toHex xs = toHex ys \<Longrightarrow> xs = ys"
proof (induction xs arbitrary: ys)
  case Nil
  then show ?case by (cases ys) (simp_all add: toHex_def)
next
  case (Cons x xs)
  then obtain y ys' where ys: "ys = y # ys'"
    by (cases ys) (simp_all add: toHex_def)
  from Cons.prems have "x = y" and "toHex xs = toHex ys'"
    by (auto simp: ys toHex_def intro: hex_byte_inj)
  with Cons.IH ys show ?case by simp
qed

lemma toHex_alivecor_signature: "toHex alivecor_signature = ''414c495645000000''"
  by (simp add: toHex_def alivecor_signature_def hexDigit_def)

lemma toHex_signature_iff: "toHex bs = ''414c495645000000'' \<longleftrightarrow> bs = alivecor_signature"
  using toHex_inj [of bs alivecor_signature] toHex_alivecor_signature by auto

lemma parseFileWithBufferBlocks_Inr:
  "parseFileWithBufferBlocks input = Inr parsed \<Longrightarrow>
     fileParser input = Inr parsed \<and> signature parsed = alivecor_signature \<and> version parsed = 4"
  by (auto simp: parseFileWithBufferBlocks_def toHex_signature_iff split: sum.splits if_splits)

lemma parsed_block_invariant:
  assumes "parseFileWithBufferBlocks input = Inr parsed" and "b \<in> set (blocks parsed)"
  shows "length (identifier b) = 4 \<and> length (contents b) = block_length b"
proof -
  from assms(1) have "fileParser input = Inr parsed"
    by (simp add: parseFileWithBufferBlocks_Inr)
  then have "blocks_until_eof (drop 12 input) = Inr (blocks parsed)"
    by (simp add: fileParser_Inr)
  then show ?thesis using assms(2) by (rule blocks_until_eof_invariant)
qed

section \<open>Text and bytes\<close>

lemma char_of_unat_eq: "char_of (unat (b::byte)) = c \<longleftrightarrow> unat b = of_char c"
proof -
  have "unat b < 2 ^ 8" using unsigned_less [of b] by simp
  then have "take_bit 8 (unat b) = unat b" by (simp add: take_bit_nat_eq_self_iff)
  then show ?thesis by (simp add: char_of_eq_iff)
qed

lemma decodeText_Nil: "decodeText [] = []"
  by (simp add: decodeText_def)

lemma decodeText_Cons: "decodeText (b # bs) = char_of (unat b) # decodeText bs"
  by (simp add: decodeText_def)

lemma decodeText_inj: "decodeText xs = decodeText ys \<Longrightarrow> xs = ys"
proof (induction xs arbitrary: ys)
  case Nil
  then show ?case by (simp add: decodeText_def)
next
  case (Cons x xs)
  then obtain y ys' where ys: "ys = y # ys'" by (cases ys) (auto simp: decodeText_def)
  from Cons.prems ys have c: "char_of (unat x) = char_of (unat y)"
    and r: "decodeText xs = decodeText ys'" by (simp_all add: decodeText_def)
  have "unat x < 2 ^ 8" "unat y < 2 ^ 8"
    using unsigned_less [of x] unsigned_less [of y] by simp_all
  then have "take_bit 8 (unat x) = unat x" "take_bit 8 (unat y) = unat y"
    by (simp_all add: take_bit_nat_eq_self_iff)
  with c have "unat x = unat y"
    by (metis char_of_eq_iff)
  then have "x = y" by (simp add: word_unat_eq_iff)
  with Cons.IH [OF r] ys show ?case by simp
qed

lemma decodeText_of_char: "decodeText (map of_char s) = s"
proof -
  have "char_of (unat (of_char c :: byte)) = c" for c
  proof -
    have "(of_char c :: byte) = of_nat (of_char c)" by (simp only: of_nat_of_char)
    then have "unat (of_char c :: byte) = of_char c mod 256"
      by (simp only: unat_of_nat) simp
    then show ?thesis by (simp add: of_char_mod_256)
  qed
  then show ?thesis by (simp add: decodeText_def map_idI)
qed

lemma decodeText_eq_iff: "decodeText xs = s \<longleftrightarrow> xs = map of_char s"
  using decodeText_inj [of xs "map of_char s"] decodeText_of_char [of s] by auto

lemma text_field_hello: "text_field [0x68, 0x65, 0x6C, 0x6C, 0x6F] 0 32 = ''hello''"
  by (simp add: text_field_def stripNull_def trimString_def isWhiteSpace_def
      decodeText_Nil decodeText_Cons char_of_eq_iff)

section \<open>Looking a block up\<close>

lemma find_filter_subset:
  "(\<And>x. P x \<Longrightarrow> Q x) \<Longrightarrow> find P (filter Q xs) = find P xs"
  by (induction xs) auto

lemma find_block_recognized:
  "type \<in> set block_types \<Longrightarrow> find_block (filter recognized bl) type = find_block bl type"
  unfolding find_block_def
  by (rule find_filter_subset) (simp add: recognized_def)

lemma find_block_None: "find_block bl type = None \<longleftrightarrow> (\<forall>b\<in>set bl. identifier b \<noteq> type)"
  by (auto simp: find_block_def find_None_iff)

lemma find_block_Some:
  "find_block bl type = Some b \<longleftrightarrow>
     (\<exists>pre post. bl = pre @ b # post \<and> identifier b = type \<and>
        (\<forall>x\<in>set pre. identifier x \<noteq> type))"
proof (induction bl)
  case Nil
  then show ?case by (simp add: find_block_def)
next
  case (Cons a bl)
  show ?case
  proof (cases "identifier a = type")
    case True
    have "(\<exists>pre post. a # bl = pre @ b # post \<and> identifier b = type \<and>
        (\<forall>x\<in>set pre. identifier x \<noteq> type)) \<longleftrightarrow> a = b"
    proof
      assume "\<exists>pre post. a # bl = pre @ b # post \<and> identifier b = type \<and>
        (\<forall>x\<in>set pre. identifier x \<noteq> type)"
      then obtain pre post where e: "a # bl = pre @ b # post"
        and n: "\<forall>x\<in>set pre. identifier x \<noteq> type" by blast
      show "a = b"
      proof (cases pre)
        case Nil
        with e show ?thesis by simp
      next
        case (Cons p ps)
        with e have "p = a" by simp
        with n Cons True show ?thesis by simp
      qed
    next
      assume "a = b"
      with True have "a # bl = [] @ b # bl \<and> identifier b = type \<and>
          (\<forall>x\<in>set []. identifier x \<noteq> type)" by simp
      then show "\<exists>pre post. a # bl = pre @ b # post \<and> identifier b = type \<and>
        (\<forall>x\<in>set pre. identifier x \<noteq> type)" by blast
    qed
    with True show ?thesis by (simp add: find_block_def)
  next
    case False
    have "(\<exists>pre post. a # bl = pre @ b # post \<and> identifier b = type \<and>
        (\<forall>x\<in>set pre. identifier x \<noteq> type)) \<longleftrightarrow>
      (\<exists>pre post. bl = pre @ b # post \<and> identifier b = type \<and>
        (\<forall>x\<in>set pre. identifier x \<noteq> type))" (is "?L \<longleftrightarrow> ?R")
    proof
      assume ?L
      then obtain pre post where e: "a # bl = pre @ b # post" and t: "identifier b = type"
        and n: "\<forall>x\<in>set pre. identifier x \<noteq> type" by blast
      show ?R
      proof (cases pre)
        case Nil
        with e t False show ?thesis by simp
      next
        case (Cons p ps)
        with e n t have "bl = ps @ b # post \<and> identifier b = type \<and>
            (\<forall>x\<in>set ps. identifier x \<noteq> type)" by simp
        then show ?thesis by blast
      qed
    next
      assume ?R
      then obtain pre post where "bl = pre @ b # post" and "identifier b = type"
        and "\<forall>x\<in>set pre. identifier x \<noteq> type" by blast
      with False have "a # bl = (a # pre) @ b # post \<and> identifier b = type \<and>
          (\<forall>x\<in>set (a # pre). identifier x \<noteq> type)" by simp
      then show ?L by blast
    qed
    with False Cons.IH show ?thesis by (simp add: find_block_def)
  qed
qed

lemma find_block_in_set: "find_block bl type = Some b \<Longrightarrow> b \<in> set bl \<and> identifier b = type"
  by (auto simp: find_block_Some)

section \<open>The leads\<close>

lemma leadBlockParser_error: "leadBlockParser bs = Inl e \<Longrightarrow> e = RangeError"
  by (simp add: leadBlockParser_eq split: if_splits)

lemma parseLeadBlock_error: "parseLeadBlock parsed type = Inl e \<Longrightarrow> e = RangeError"
  by (auto simp: parseLeadBlock_def split: option.splits sum.splits dest: leadBlockParser_error)

lemma map_leads_fails:
  "(type, name) \<in> set tbl \<Longrightarrow> parseLeadBlock parsed type = Inl e \<Longrightarrow>
     map_leads parsed tbl = Inl RangeError"
proof (induction parsed tbl rule: map_leads.induct)
  case (1 parsed)
  then show ?case by simp
next
  case (2 parsed ty nm tbl)
  show ?case
  proof (cases "parseLeadBlock parsed ty")
    case (Inl e')
    then show ?thesis using parseLeadBlock_error [OF Inl] by simp
  next
    case (Inr d)
    with "2.prems" have "(type, name) \<in> set tbl" by auto
    then have "map_leads parsed tbl = Inl RangeError"
      using "2.IH" [OF Inr] "2.prems"(2) by simp
    with Inr show ?thesis by simp
  qed
qed

lemma map_leads_succeeds:
  "(\<And>type name. (type, name) \<in> set tbl \<Longrightarrow> \<exists>d. parseLeadBlock parsed type = Inr d) \<Longrightarrow>
     map_leads parsed tbl = Inr (map (\<lambda>(type, name). (name, lead_data parsed type)) tbl)"
proof (induction parsed tbl rule: map_leads.induct)
  case (1 parsed)
  then show ?case by simp
next
  case (2 parsed ty nm tbl)
  from "2.prems" [of ty nm] obtain d where d: "parseLeadBlock parsed ty = Inr d" by auto
  have "map_leads parsed tbl = Inr (map (\<lambda>(type, name). (name, lead_data parsed type)) tbl)"
  proof (rule "2.IH" [OF d])
    fix type name
    assume "(type, name) \<in> set tbl"
    then have "(type, name) \<in> set ((ty, nm) # tbl)" by simp
    then show "\<exists>d. parseLeadBlock parsed type = Inr d" by (rule "2.prems")
  qed
  with d show ?case by (simp add: lead_data_def)
qed

lemma map_leads_cong:
  "(\<And>type name. (type, name) \<in> set tbl \<Longrightarrow> parseLeadBlock p type = parseLeadBlock p' type) \<Longrightarrow>
     map_leads p tbl = map_leads p' tbl"
proof (induction tbl)
  case Nil
  then show ?case by simp
next
  case (Cons a tbl)
  obtain t n where a: "a = (t, n)" by (cases a)
  have "parseLeadBlock p t = parseLeadBlock p' t"
    using Cons.prems [of t n] a by simp
  moreover have "map_leads p tbl = map_leads p' tbl"
  proof (rule Cons.IH)
    fix type name
    assume "(type, name) \<in> set tbl"
    then have "(type, name) \<in> set (a # tbl)" by simp
    then show "parseLeadBlock p type = parseLeadBlock p' type" by (rule Cons.prems)
  qed
  ultimately show ?case by (simp add: a split: sum.splits)
qed

lemma map_of_foldl_leads:
  "distinct (map fst ds) \<Longrightarrow>
   map_of (foldl (\<lambda>acc i. case snd i of Some d \<Rightarrow> AList.update (fst i) d acc | None \<Rightarrow> acc)
      acc ds) k =
     (case map_of ds k of Some (Some d) \<Rightarrow> Some d | _ \<Rightarrow> map_of acc k)"
proof (induction ds arbitrary: acc)
  case Nil
  then show ?case by simp
next
  case (Cons a ds)
  obtain n v where a: "a = (n, v)" by (cases a)
  from Cons.prems a have nd: "n \<notin> fst ` set ds" and dd: "distinct (map fst ds)" by auto
  from nd have mn: "map_of ds n = None" by (simp add: map_of_eq_None_iff)
  show ?case
  proof (cases "k = n")
    case True
    then show ?thesis
      using Cons.IH [OF dd] a mn by (simp add: update_conv' split: option.splits)
  next
    case False
    then show ?thesis
      using Cons.IH [OF dd] a by (simp add: update_conv' split: option.splits)
  qed
qed

lemma map_of_reduce_leads:
  "distinct (map fst ds) \<Longrightarrow>
     map_of (reduce_leads (filter_leads ds)) k =
       (case map_of ds k of Some (Some d) \<Rightarrow> Some d | _ \<Rightarrow> None)"
proof -
  assume d: "distinct (map fst ds)"
  then have "distinct (map fst (filter_leads ds))"
    by (simp add: filter_leads_def distinct_map_filter)
  then have "map_of (reduce_leads (filter_leads ds)) k =
      (case map_of (filter_leads ds) k of Some (Some d) \<Rightarrow> Some d | _ \<Rightarrow> None)"
    unfolding reduce_leads_def by (simp add: map_of_foldl_leads split: option.splits)
  moreover have "(case map_of (filter_leads ds) k of Some (Some d) \<Rightarrow> Some d | _ \<Rightarrow> None) =
      (case map_of ds k of Some (Some d) \<Rightarrow> Some d | _ \<Rightarrow> None)"
    using d unfolding filter_leads_def
  proof (induction ds)
    case Nil
    then show ?case by simp
  next
    case (Cons a ds)
    then show ?case
      by (cases a) (auto split: option.splits simp: image_iff dest!: map_of_SomeD)
  qed
  ultimately show ?thesis by simp
qed

section \<open>parse on the blocks of a file\<close>

lemma parse_leads_lookup:
  assumes p: "parseFileWithBufferBlocks input = Inr parsed"
    and i: "parseInfoBlock parsed = Inr i"
    and f: "parseFormatBlock parsed = Inr f"
    and e: "ecgFormat f = 1"
    and a: "parseAnnotationBlock parsed = Inr a"
    and all: "\<And>t n. (t, n) \<in> set lead_table \<Longrightarrow> \<exists>d. parseLeadBlock parsed t = Inr d"
    and tn: "(type, name) \<in> set lead_table"
  shows "\<exists>r. parse input = Inr r \<and> map_of (leads r) name = lead_data parsed type"
proof -
  let ?ds = "map (\<lambda>(t, n). (n, lead_data parsed t)) lead_table"
  have m: "map_leads parsed lead_table = Inr ?ds"
    using all by (rule map_leads_succeeds)
  have d: "distinct (map fst ?ds)"
    by (simp add: lead_table_def)
  have "map_of ?ds name = Some (lead_data parsed type)"
    using tn by (auto simp: lead_table_def)
  then have "map_of (reduce_leads (filter_leads ?ds)) name = lead_data parsed type"
    by (simp add: map_of_reduce_leads [OF d] split: option.splits)
  then show ?thesis
    by (simp add: parse_def p i f e a m)
qed

lemma parse_recognized_blocks:
  assumes p: "parseFileWithBufferBlocks input = Inr parsed"
    and p': "parseFileWithBufferBlocks input' = Inr parsed'"
    and eq: "filter recognized (blocks parsed) = filter recognized (blocks parsed')"
  shows "parse input = parse input'"
proof -
  have fb: "find_block (blocks parsed) type = find_block (blocks parsed') type"
    if "type \<in> set block_types" for type
    using find_block_recognized [OF that, of "blocks parsed"]
      find_block_recognized [OF that, of "blocks parsed'"] eq by simp
  have i: "parseInfoBlock parsed = parseInfoBlock parsed'"
    by (simp add: parseInfoBlock_def fb block_types_def)
  have f: "parseFormatBlock parsed = parseFormatBlock parsed'"
    by (simp add: parseFormatBlock_def fb block_types_def)
  have a: "parseAnnotationBlock parsed = parseAnnotationBlock parsed'"
    by (simp add: parseAnnotationBlock_def fb block_types_def)
  have l: "map_leads parsed lead_table = map_leads parsed' lead_table"
  proof (rule map_leads_cong)
    fix type name
    assume "(type, name) \<in> set lead_table"
    then have "type \<in> set (map fst lead_table)" by force
    then have "type \<in> set block_types" by (simp add: block_types_def)
    then show "parseLeadBlock parsed type = parseLeadBlock parsed' type"
      by (simp add: parseLeadBlock_def fb)
  qed
  show ?thesis unfolding parse_def p p' sum.case i f a l by (rule refl)
qed

section \<open>The example files, parsed\<close>

lemmas container_simps =
  char_of_unat_eq char_of_eq_iff decodeText_Nil decodeText_Cons
  blocks_until_eof_Nil blocks_until_eof_Cons
  then_read_def result_def buffer_fixed_def string_fixed_def
  blockParser_def fileParser_def

lemmas file_simps =
  alivecor_signature_def container_simps parseFileWithBufferBlocks_def toHex_def hexDigit_def

lemma identifier_example_blocks [simp]:
  "identifier info_block = ''info''"
  "identifier fmt_block = ''fmt ''"
  "identifier fmt2_block = ''fmt ''"
  "identifier ecg_block = ''ecg ''"
  "identifier odd_ecg_block = ''ecg ''"
  "identifier empty_ecg_block = ''ecg ''"
  "identifier partial_ann_block = ''ann ''"
  "identifier xtra_block = ''xtra''"
  "identifier upper_info_block = ''INFO''"
  by (simp_all add: info_block_def fmt_block_def fmt2_block_def ecg_block_def odd_ecg_block_def
      empty_ecg_block_def partial_ann_block_def xtra_block_def upper_info_block_def)

lemma short_info_file_parsed: "parseFileWithBufferBlocks short_info_file = Inr short_info_parsed"
  by (simp add: short_info_file_def short_info_parsed_def info_block_def fmt_block_def
      ecg_block_def file_simps)

lemma xtra_file_parsed: "parseFileWithBufferBlocks xtra_file = Inr xtra_parsed"
  by (simp add: xtra_file_def xtra_parsed_def xtra_block_def info_block_def
      upper_info_block_def fmt_block_def ecg_block_def file_simps)

lemma odd_lead_file_parsed: "parseFileWithBufferBlocks odd_lead_file = Inr odd_lead_parsed"
  by (simp add: odd_lead_file_def odd_lead_parsed_def info_block_def fmt_block_def
      odd_ecg_block_def file_simps)

lemma empty_lead_file_parsed: "parseFileWithBufferBlocks empty_lead_file = Inr empty_lead_parsed"
  by (simp add: empty_lead_file_def empty_lead_parsed_def info_block_def fmt_block_def
      empty_ecg_block_def file_simps)

lemma partial_tick_file_parsed:
  "parseFileWithBufferBlocks partial_tick_file = Inr partial_tick_parsed"
  by (simp add: partial_tick_file_def partial_tick_parsed_def info_block_def fmt_block_def
      partial_ann_block_def ecg_block_def file_simps)



lemma info_block_decoded: "run_parser infoBlockParser (contents info_block) = Inr info_decoded"
  by (simp add: infoBlockParser_eq info_block_def info_decoded_def text_field_hello
      text_field_past_end)

lemma fmt_block_decoded: "run_parser formatBlockParser (contents fmt_block) = Inr fmt_decoded"
  by (simp add: fmt_block_def fmt_decoded_def run_parser_def formatBlockParser_def
      then_read_def result_def bit1_def convertToBoolean_def)


lemma ecg_block_decoded: "leadBlockParser (contents ecg_block) = Inr [100, - 200, 300]"
  by (simp add: ecg_block_def leadBlockParser_def int16le_until_eof_Nil int16le_until_eof_Cons
      word_cat_eq)

lemma short_info_file_decoded: "parse short_info_file = Inr short_info_decoded"
proof -
  have i: "parseInfoBlock short_info_parsed = Inr info_decoded"
    by (simp add: parseInfoBlock_def find_block_def short_info_parsed_def info_block_decoded)
  have f: "parseFormatBlock short_info_parsed = Inr fmt_decoded"
    by (simp add: parseFormatBlock_def find_block_def short_info_parsed_def fmt_block_decoded)
  have a: "parseAnnotationBlock short_info_parsed = Inr None"
    by (simp add: parseAnnotationBlock_def find_block_def short_info_parsed_def)
  have l: "map_leads short_info_parsed lead_table =
      Inr [(''leadI'', Some [100, - 200, 300]), (''leadII'', None), (''leadIII'', None),
           (''aVR'', None), (''aVL'', None), (''aVF'', None)]"
    by (simp add: lead_table_def parseLeadBlock_def find_block_def short_info_parsed_def
        ecg_block_decoded)
  have e: "ecgFormat fmt_decoded = 1" by (simp add: fmt_decoded_def)
  show ?thesis
    unfolding parse_def short_info_file_parsed
    by (simp add: i f a l e filter_leads_def reduce_leads_def short_info_decoded_def)
qed

lemma length_sample_info: "length sample_info = 264"
  by (simp add: sample_info_def null_padded_def)

lemma round_trip_fileParser:
  assumes "length ic = 264" and "length k1 = 4" and "length k2 = 4" and "length k3 = 4"
  shows "fileParser (round_trip_file ic k1 k2 k3) =
    Inr \<lparr>signature = alivecor_signature, version = 4,
      blocks =
        [\<lparr>identifier = ''fmt '', block_length = 8,
            contents = [0x01, 0x2C, 0x01, 0xE8, 0x03, 0x05, 0x00, 0x00],
            checksum = le_uint32_at k1 0\<rparr>,
         \<lparr>identifier = ''info'', block_length = 264, contents = ic,
            checksum = le_uint32_at k2 0\<rparr>,
         \<lparr>identifier = ''ecg '', block_length = 6,
            contents = [0x64, 0x00, 0x38, 0xFF, 0x2C, 0x01],
            checksum = le_uint32_at k3 0\<rparr>]\<rparr>"
  using assms
  by (simp add: round_trip_file_def alivecor_signature_def container_simps uint32le_append
      uint32le_exact)

lemma round_trip_parse:
  assumes "length ic = 264" and "length k1 = 4" and "length k2 = 4" and "length k3 = 4"
  shows "parse (round_trip_file ic k1 k2 k3) =
    Inr \<lparr>fileVersion = ''1.6'',
      info = \<lparr>dateRecorded = text_field ic 0 32,
          recordingUuid = text_field ic 32 40,
          mobilePhoneUuid = text_field ic 72 44,
          mobilePhoneModel = text_field ic 116 32,
          recorderSoftware = text_field ic 148 32,
          recorderHardware = text_field ic 180 32,
          deviceData = text_field ic 212 52\<rparr>,
      format = fmt_decoded,
      leads = [(''leadI'', [100, - 200, 300])],
      annotation = None\<rparr>"
proof -
  let ?parsed = "\<lparr>signature = alivecor_signature, version = 4,
      blocks =
        [\<lparr>identifier = ''fmt '', block_length = 8,
            contents = [0x01, 0x2C, 0x01, 0xE8, 0x03, 0x05, 0x00, 0x00],
            checksum = le_uint32_at k1 0\<rparr>,
         \<lparr>identifier = ''info'', block_length = 264, contents = ic,
            checksum = le_uint32_at k2 0\<rparr>,
         \<lparr>identifier = ''ecg '', block_length = 6,
            contents = [0x64, 0x00, 0x38, 0xFF, 0x2C, 0x01],
            checksum = le_uint32_at k3 0\<rparr>]\<rparr>"
  have p: "parseFileWithBufferBlocks (round_trip_file ic k1 k2 k3) = Inr ?parsed"
    by (simp add: parseFileWithBufferBlocks_def round_trip_fileParser [OF assms]
        toHex_alivecor_signature)
  have i: "parseInfoBlock ?parsed = Inr \<lparr>dateRecorded = text_field ic 0 32,
          recordingUuid = text_field ic 32 40,
          mobilePhoneUuid = text_field ic 72 44,
          mobilePhoneModel = text_field ic 116 32,
          recorderSoftware = text_field ic 148 32,
          recorderHardware = text_field ic 180 32,
          deviceData = text_field ic 212 52\<rparr>"
    by (simp add: parseInfoBlock_def find_block_def infoBlockParser_eq)
  have f: "parseFormatBlock ?parsed = Inr fmt_decoded"
    using fmt_block_decoded by (simp add: parseFormatBlock_def find_block_def fmt_block_def)
  have a: "parseAnnotationBlock ?parsed = Inr None"
    by (simp add: parseAnnotationBlock_def find_block_def)
  have l: "map_leads ?parsed lead_table =
      Inr [(''leadI'', Some [100, - 200, 300]), (''leadII'', None), (''leadIII'', None),
           (''aVR'', None), (''aVL'', None), (''aVF'', None)]"
    using ecg_block_decoded
    by (simp add: lead_table_def parseLeadBlock_def find_block_def ecg_block_def)
  have e: "ecgFormat fmt_decoded = 1" by (simp add: fmt_decoded_def)
  show ?thesis
    unfolding parse_def p
    by (simp add: i f a l e filter_leads_def reduce_leads_def)
qed

section \<open>The round trip (C1)\<close>

text \<open>C1, as it is written, does not hold: for a round-trip file the \<^verbatim>\<open>polarity\<close>
  property of the decoded format is not the boolean \<^verbatim>\<open>true\<close>. \<^verbatim>\<open>polarity\<close> is declared
  \<^verbatim>\<open>bit1('polarity')\<close> with no formatter (and \<^verbatim>\<open>polarity: number\<close> in the interface), so
  it is the bit itself, the number 1.\<close>

theorem C1_polarity_counterexample:
  "\<not> (\<exists>r. parse (round_trip_file sample_info [0, 0, 0, 0] [0, 0, 0, 0] [0, 0, 0, 0]) = Inr r \<and>
      samplingRateHz (format r) = 300 \<and> mainsFrequency (format r) = 50 \<and>
      format_property (format r) ''polarity'' = Some (JSBoolean True) \<and>
      leads r = [(''leadI'', [100, - 200, 300])] \<and> annotation r = None)"
  by (simp add: round_trip_parse length_sample_info format_property_def fmt_decoded_def)

text \<open>C1, amended: for the file built from the signature \<^verbatim>\<open>41 4C 49 56 45 00 00 00\<close>,
  version 4, one \<^verbatim>\<open>fmt \<close> block (ecgFormat 1, 300 Hz, 1000 nV, flags \<^verbatim>\<open>0x05\<close>, reserved
  0), one \<^verbatim>\<open>info\<close> block of exactly 264 bytes and one \<^verbatim>\<open>ecg \<close> block with the content
  \<^verbatim>\<open>64 00 38 FF 2C 01\<close>, whatever the 264 bytes and the three checksums are, \<^verbatim>\<open>parse\<close>
  succeeds, and the record has \<^verbatim>\<open>format.samplingRateHz\<close> 300, \<^verbatim>\<open>format.mainsFrequency\<close>
  50, \<^verbatim>\<open>format.polarity\<close> the number 1, \<^verbatim>\<open>leads.leadI\<close> = [100, -200, 300], no other
  lead and no annotation.\<close>

theorem C1_round_trip:
  assumes "length ic = 264" and "length k1 = 4" and "length k2 = 4" and "length k3 = 4"
  shows "\<exists>r. parse (round_trip_file ic k1 k2 k3) = Inr r \<and>
      samplingRateHz (format r) = 300 \<and> mainsFrequency (format r) = 50 \<and>
      format_property (format r) ''polarity'' = Some (JSNumber 1) \<and>
      leads r = [(''leadI'', [100, - 200, 300])] \<and> annotation r = None"
  by (simp add: round_trip_parse [OF assms] format_property_def fmt_decoded_def)

text \<open>The amended C1 at an \<^verbatim>\<open>info\<close> content of seven null-padded texts and zero
  checksums.\<close>

theorem C1_round_trip_witness:
  "length sample_info = 264 \<and>
   (\<exists>r. parse (round_trip_file sample_info [0, 0, 0, 0] [0, 0, 0, 0] [0, 0, 0, 0]) = Inr r \<and>
      samplingRateHz (format r) = 300 \<and> mainsFrequency (format r) = 50 \<and>
      format_property (format r) ''polarity'' = Some (JSNumber 1) \<and>
      leads r = [(''leadI'', [100, - 200, 300])] \<and> annotation r = None)"
  using C1_round_trip [of sample_info "[0, 0, 0, 0]" "[0, 0, 0, 0]" "[0, 0, 0, 0]"]
  by (simp add: length_sample_info)

section \<open>The signature check (C2)\<close>

text \<open>C2, as it is written, does not hold: \<^verbatim>\<open>parseFileWithBufferBlocks\<close> first runs
  \<^verbatim>\<open>fileParser\<close> over the whole input, blocks included, and compares the signature
  afterwards. An input that starts with \<^verbatim>\<open>BLIVE\<close> and ends inside a block fails with the
  RangeError of the read past the end, not with \<^verbatim>\<open>'Not an AliveCor ECG file'\<close>.\<close>

theorem C2_signature_counterexample:
  "take 8 bad_signature_truncated \<noteq> alivecor_signature \<and>
   parse bad_signature_truncated = Inl RangeError"
  by (simp add: bad_signature_truncated_def parse_def file_simps)

text \<open>C2, amended: for every input whose first 8 bytes differ from
  \<^verbatim>\<open>41 4C 49 56 45 00 00 00\<close>, \<^verbatim>\<open>parse\<close> fails: with \<^verbatim>\<open>'Not an AliveCor ECG file'\<close>
  when \<^verbatim>\<open>fileParser\<close> gets through the input (a version of any value and a well-formed
  block sequence follow the 8 bytes), and with the RangeError of \<^verbatim>\<open>fileParser\<close>
  otherwise.\<close>

theorem C2_signature:
  assumes "take 8 input \<noteq> alivecor_signature"
  shows "parse input =
    (case fileParser input of
       Inl e \<Rightarrow> Inl RangeError
     | Inr parsed \<Rightarrow> Inl NotAnAliveCorEcgFile)"
proof (cases "fileParser input")
  case (Inl e)
  then have "e = RangeError" by (rule fileParser_error)
  with Inl show ?thesis by (simp add: parse_def parseFileWithBufferBlocks_def)
next
  case (Inr parsed)
  then have "signature parsed = take 8 input" by (simp add: fileParser_Inr)
  with assms have "toHex (signature parsed) \<noteq> ''414c495645000000''"
    by (simp add: toHex_signature_iff)
  with Inr show ?thesis by (simp add: parse_def parseFileWithBufferBlocks_def)
qed

text \<open>The amended C2 at an input that starts with \<^verbatim>\<open>BLIVE\<close>, has the version 7 and one
  whole block.\<close>

theorem C2_signature_witness:
  "take 8 bad_signature_file \<noteq> alivecor_signature \<and>
   fileParser bad_signature_file =
     Inr \<lparr>signature = [0x42, 0x4C, 0x49, 0x56, 0x45, 0x00, 0x00, 0x00], version = 7,
       blocks = [\<lparr>identifier = ''xtra'', block_length = 2, contents = [0x01, 0x02],
         checksum = 0\<rparr>]\<rparr> \<and>
   parse bad_signature_file = Inl NotAnAliveCorEcgFile"
proof -
  have s: "take 8 bad_signature_file \<noteq> alivecor_signature"
    by (simp add: bad_signature_file_def alivecor_signature_def)
  have f: "fileParser bad_signature_file =
     Inr \<lparr>signature = [0x42, 0x4C, 0x49, 0x56, 0x45, 0x00, 0x00, 0x00], version = 7,
       blocks = [\<lparr>identifier = ''xtra'', block_length = 2, contents = [0x01, 0x02],
         checksum = 0\<rparr>]\<rparr>"
    by (simp add: bad_signature_file_def container_simps)
  show ?thesis using C2_signature [OF s] s f by simp
qed

section \<open>The order of the checks (C3)\<close>




section \<open>A short info block (C4)\<close>




section \<open>The signal decoder (C5)\<close>

text \<open>C5: \<^verbatim>\<open>leadBlockParser\<close>, applied to the content of a lead block, returns the
  signed 16-bit little-endian integers of the content in order, one for every two bytes,
  using the whole content; when the length of the content is odd it fails, and the
  failure (the RangeError of the read of the last, incomplete sample, which is what the
  specification calls MalformedSignalBlock) is also the failure of \<^verbatim>\<open>parse\<close> on every
  file that the container reader accepts, whose \<^verbatim>\<open>info\<close>, \<^verbatim>\<open>fmt \<close> and \<^verbatim>\<open>ann \<close>
  blocks pass, and in which the block found for one of the six lead types has a content
  of odd length.\<close>

theorem C5_signal_decoder:
  "leadBlockParser bs =
     (if even (length bs) then Inr (map (\<lambda>k. le_int16_at bs (2 * k)) [0..<length bs div 2])
      else Inl RangeError) \<and>
   (parseFileWithBufferBlocks input = Inr parsed \<and> parseInfoBlock parsed = Inr i \<and>
    parseFormatBlock parsed = Inr f \<and> ecgFormat f = 1 \<and>
    parseAnnotationBlock parsed = Inr a \<and>
    (type, name) \<in> set lead_table \<and> find_block (blocks parsed) type = Some b \<and>
    odd (length (contents b))
      \<longrightarrow> parse input = Inl RangeError)"
proof (intro conjI impI)
  show "leadBlockParser bs =
     (if even (length bs) then Inr (map (\<lambda>k. le_int16_at bs (2 * k)) [0..<length bs div 2])
      else Inl RangeError)"
    by (rule leadBlockParser_eq)
next
  assume h: "parseFileWithBufferBlocks input = Inr parsed \<and> parseInfoBlock parsed = Inr i \<and>
    parseFormatBlock parsed = Inr f \<and> ecgFormat f = 1 \<and>
    parseAnnotationBlock parsed = Inr a \<and>
    (type, name) \<in> set lead_table \<and> find_block (blocks parsed) type = Some b \<and>
    odd (length (contents b))"
  then have "parseLeadBlock parsed type = Inl RangeError"
    by (simp add: parseLeadBlock_def leadBlockParser_eq)
  with h have "map_leads parsed lead_table = Inl RangeError"
    by (auto intro: map_leads_fails)
  with h show "parse input = Inl RangeError"
    by (simp add: parse_def)
qed

text \<open>C5 at the six bytes \<^verbatim>\<open>64 00 38 FF 2C 01\<close>, at their first five, and at the file
  whose \<^verbatim>\<open>ecg \<close> block has these five bytes.\<close>

theorem C5_signal_decoder_witness:
  "leadBlockParser [0x64, 0x00, 0x38, 0xFF, 0x2C, 0x01] = Inr [100, - 200, 300] \<and>
   leadBlockParser [0x64, 0x00, 0x38, 0xFF, 0x2C] = Inl RangeError \<and>
   parseFileWithBufferBlocks odd_lead_file = Inr odd_lead_parsed \<and>
   find_block (blocks odd_lead_parsed) ''ecg '' = Some odd_ecg_block \<and>
   length (contents odd_ecg_block) = 5 \<and>
   parse odd_lead_file = Inl RangeError"
proof -
  have i: "parseInfoBlock odd_lead_parsed = Inr info_decoded"
    by (simp add: parseInfoBlock_def find_block_def odd_lead_parsed_def info_block_decoded)
  have f: "parseFormatBlock odd_lead_parsed = Inr fmt_decoded"
    by (simp add: parseFormatBlock_def find_block_def odd_lead_parsed_def fmt_block_decoded)
  have e: "ecgFormat fmt_decoded = 1" by (simp add: fmt_decoded_def)
  have a: "parseAnnotationBlock odd_lead_parsed = Inr None"
    by (simp add: parseAnnotationBlock_def find_block_def odd_lead_parsed_def)
  have t: "(''ecg '', ''leadI'') \<in> set lead_table" by (simp add: lead_table_def)
  have b: "find_block (blocks odd_lead_parsed) ''ecg '' = Some odd_ecg_block"
    by (simp add: find_block_def odd_lead_parsed_def)
  have c: "contents odd_ecg_block = [0x64, 0x00, 0x38, 0xFF, 0x2C]"
    by (simp add: odd_ecg_block_def)
  have u: "[0..<3] = [0, 1, 2]" by (simp add: upt_rec)
  have "leadBlockParser [0x64, 0x00, 0x38, 0xFF, 0x2C, 0x01] = Inr [100, - 200, 300]"
    using C5_signal_decoder [of "[0x64, 0x00, 0x38, 0xFF, 0x2C, 0x01]"]
    by (simp add: u le_int16_at_def signed16_def le_uint16_at_def)
  moreover have "leadBlockParser [0x64, 0x00, 0x38, 0xFF, 0x2C] = Inl RangeError"
    using C5_signal_decoder [of "[0x64, 0x00, 0x38, 0xFF, 0x2C]"] by simp
  moreover have "parse odd_lead_file = Inl RangeError"
    using C5_signal_decoder [of "[]" odd_lead_file odd_lead_parsed info_decoded fmt_decoded
        None "''ecg ''" "''leadI''" odd_ecg_block]
      odd_lead_file_parsed i f e a t b c
    by simp
  ultimately show ?thesis using odd_lead_file_parsed b c by simp
qed

section \<open>The annotation decoder (C6)\<close>

text \<open>C6: \<^verbatim>\<open>annotationBlockParser\<close> reads a 4-byte little-endian tick frequency and then
  records of 6 bytes (a 4-byte unsigned offset and a 2-byte unsigned beatType, both
  little-endian) until the content is used up; when the length of the content minus 4 is
  not a multiple of 6 (a content shorter than 4 bytes included) it fails, and the failure
  (the RangeError of the read that runs past the content, which is what the specification
  calls MalformedAnnotationBlock) is also the failure of \<^verbatim>\<open>parse\<close> on every file that the
  container reader accepts, whose \<^verbatim>\<open>info\<close> and \<^verbatim>\<open>fmt \<close> blocks decode, and whose
  \<^verbatim>\<open>ann \<close> block has such a content.\<close>

theorem C6_annotation_decoder:
  "annotationBlockParser bs =
     (if 6 dvd (int (length bs) - 4)
      then Inr \<lparr>tickCountFrequencyHz = le_uint32_at bs 0,
                ticks = map (\<lambda>k. \<lparr>offset = le_uint32_at bs (4 + 6 * k),
                                      beatType = le_uint16_at bs (4 + 6 * k + 4)\<rparr>)
                          [0..<(length bs - 4) div 6]\<rparr>
      else Inl RangeError) \<and>
   (parseFileWithBufferBlocks input = Inr parsed \<and> parseInfoBlock parsed = Inr i \<and>
    parseFormatBlock parsed = Inr f \<and>
    find_block (blocks parsed) ''ann '' = Some b \<and>
    \<not> 6 dvd (int (length (contents b)) - 4)
      \<longrightarrow> parse input = Inl RangeError)"
proof (intro conjI impI)
  show "annotationBlockParser bs =
     (if 6 dvd (int (length bs) - 4)
      then Inr \<lparr>tickCountFrequencyHz = le_uint32_at bs 0,
                ticks = map (\<lambda>k. \<lparr>offset = le_uint32_at bs (4 + 6 * k),
                                      beatType = le_uint16_at bs (4 + 6 * k + 4)\<rparr>)
                          [0..<(length bs - 4) div 6]\<rparr>
      else Inl RangeError)"
    by (rule annotationBlockParser_eq)
next
  assume h: "parseFileWithBufferBlocks input = Inr parsed \<and> parseInfoBlock parsed = Inr i \<and>
    parseFormatBlock parsed = Inr f \<and>
    find_block (blocks parsed) ''ann '' = Some b \<and>
    \<not> 6 dvd (int (length (contents b)) - 4)"
  then have "annotationBlockParser (contents b) = Inl RangeError"
    by (simp only: annotationBlockParser_eq if_False)
  with h have "parseAnnotationBlock parsed = Inl RangeError"
    by (simp add: parseAnnotationBlock_def)
  with h show "parse input = Inl RangeError"
    by (simp add: parse_def)
qed

text \<open>C6 at a content of 4 + 6 * 2 bytes, and at the file whose \<^verbatim>\<open>ann \<close> block has
  these bytes and 3 more.\<close>

theorem C6_annotation_decoder_witness:
  "annotationBlockParser
     [0x2C, 0x01, 0x00, 0x00,
      0x64, 0x00, 0x00, 0x00, 0x01, 0x00,
      0x90, 0x01, 0x00, 0x00, 0x02, 0x00] =
     Inr \<lparr>tickCountFrequencyHz = 300,
       ticks = [\<lparr>offset = 100, beatType = 1\<rparr>, \<lparr>offset = 400, beatType = 2\<rparr>]\<rparr> \<and>
   parseFileWithBufferBlocks partial_tick_file = Inr partial_tick_parsed \<and>
   find_block (blocks partial_tick_parsed) ''ann '' = Some partial_ann_block \<and>
   length (contents partial_ann_block) = 4 + 6 * 2 + 3 \<and>
   annotationBlockParser (contents partial_ann_block) = Inl RangeError \<and>
   parse partial_tick_file = Inl RangeError"
proof -
  have i: "parseInfoBlock partial_tick_parsed = Inr info_decoded"
    by (simp add: parseInfoBlock_def find_block_def partial_tick_parsed_def info_block_decoded)
  have f: "parseFormatBlock partial_tick_parsed = Inr fmt_decoded"
    by (simp add: parseFormatBlock_def find_block_def partial_tick_parsed_def fmt_block_decoded)
  have b: "find_block (blocks partial_tick_parsed) ''ann '' = Some partial_ann_block"
    by (simp add: find_block_def partial_tick_parsed_def)
  have l: "length (contents partial_ann_block) = 19"
    by (simp add: partial_ann_block_def)
  have u: "[0..<2] = [0, 1]" by (simp add: upt_rec)
  have "annotationBlockParser
     [0x2C, 0x01, 0x00, 0x00,
      0x64, 0x00, 0x00, 0x00, 0x01, 0x00,
      0x90, 0x01, 0x00, 0x00, 0x02, 0x00] =
     Inr \<lparr>tickCountFrequencyHz = 300,
       ticks = [\<lparr>offset = 100, beatType = 1\<rparr>, \<lparr>offset = 400, beatType = 2\<rparr>]\<rparr>"
    using C6_annotation_decoder [of "[0x2C, 0x01, 0x00, 0x00,
      0x64, 0x00, 0x00, 0x00, 0x01, 0x00,
      0x90, 0x01, 0x00, 0x00, 0x02, 0x00]"]
    by (simp add: u le_uint32_at_def le_uint16_at_def)
  moreover have "annotationBlockParser (contents partial_ann_block) = Inl RangeError"
    using C6_annotation_decoder [of "contents partial_ann_block"] by (simp add: l)
  moreover have "parse partial_tick_file = Inl RangeError"
    using C6_annotation_decoder [of "[]" partial_tick_file partial_tick_parsed info_decoded
        fmt_decoded partial_ann_block]
      partial_tick_file_parsed i f b
    by (simp add: l)
  ultimately show ?thesis using partial_tick_file_parsed b l by simp
qed

section \<open>Looking a block up (C7)\<close>

text \<open>C7: the lookup \<^verbatim>\<open>parsed.blocks.find((b) => b.identifier === type)\<close> returns the
  first block in file order whose identifier is the requested type, and nothing when no
  block has it; for each of the types that \<^verbatim>\<open>parse\<close> looks up, a block has it exactly
  when the 4 bytes of its identifier are the codes of the type's characters, so letter case
  and spaces count; and blocks of other types, wherever they stand among the blocks, do
  not change the result of \<^verbatim>\<open>parse\<close>: two files that the container reader accepts and
  that have the same blocks of the looked-up types, in the same order, decode alike.\<close>

theorem C7_block_lookup:
  "(find_block bl type = None \<longleftrightarrow> (\<forall>x\<in>set bl. identifier x \<noteq> type)) \<and>
   (find_block bl type = Some b \<longleftrightarrow>
      (\<exists>pre post. bl = pre @ b # post \<and> identifier b = type \<and>
         (\<forall>x\<in>set pre. identifier x \<noteq> type))) \<and>
   (type \<in> set block_types \<and> blockParser bs = Inr (blk, rest) \<longrightarrow>
      (identifier blk = type \<longleftrightarrow> take 4 bs = map of_char type)) \<and>
   (parseFileWithBufferBlocks input = Inr parsed \<and>
    parseFileWithBufferBlocks input' = Inr parsed' \<and>
    filter recognized (blocks parsed) = filter recognized (blocks parsed')
      \<longrightarrow> parse input = parse input')"
proof (intro conjI impI)
  show "find_block bl type = None \<longleftrightarrow> (\<forall>x\<in>set bl. identifier x \<noteq> type)"
    by (rule find_block_None)
  show "find_block bl type = Some b \<longleftrightarrow>
      (\<exists>pre post. bl = pre @ b # post \<and> identifier b = type \<and>
         (\<forall>x\<in>set pre. identifier x \<noteq> type))"
    by (rule find_block_Some)
  show "identifier blk = type \<longleftrightarrow> take 4 bs = map of_char type"
    if "type \<in> set block_types \<and> blockParser bs = Inr (blk, rest)"
  proof -
    from that have "identifier blk = decodeText (take 4 bs)"
      by (auto simp: blockParser_eq split: if_splits)
    then show ?thesis by (simp add: decodeText_eq_iff)
  qed
  show "parse input = parse input'"
    if "parseFileWithBufferBlocks input = Inr parsed \<and>
      parseFileWithBufferBlocks input' = Inr parsed' \<and>
      filter recognized (blocks parsed) = filter recognized (blocks parsed')"
    using that by (auto intro: parse_recognized_blocks)
qed

text \<open>C7 at a file with two \<^verbatim>\<open>xtra\<close> blocks and an \<^verbatim>\<open>INFO\<close> block around and between
  its \<^verbatim>\<open>info\<close>, \<^verbatim>\<open>fmt \<close> and \<^verbatim>\<open>ecg \<close> blocks, and at the file of these three blocks
  alone.\<close>

theorem C7_block_lookup_witness:
  "find_block (blocks xtra_parsed) ''Info'' = None \<and>
   find_block (blocks xtra_parsed) ''info'' = Some info_block \<and>
   find_block (blocks xtra_parsed) ''xtra'' = Some xtra_block \<and>
   blockParser [0x49, 0x4E, 0x46, 0x4F,  0x01, 0x00, 0x00, 0x00,  0x09,  0x00, 0x00, 0x00, 0x00]
     = Inr (upper_info_block, []) \<and>
   identifier upper_info_block \<noteq> ''info'' \<and>
   parseFileWithBufferBlocks xtra_file = Inr xtra_parsed \<and>
   parseFileWithBufferBlocks short_info_file = Inr short_info_parsed \<and>
   filter recognized (blocks xtra_parsed) = blocks short_info_parsed \<and>
   parse xtra_file = parse short_info_file"
proof -
  have r: "filter recognized (blocks xtra_parsed) = [info_block, fmt_block, ecg_block]"
    by (simp add: xtra_parsed_def recognized_def block_types_def lead_table_def)
  have r': "filter recognized (blocks short_info_parsed) = [info_block, fmt_block, ecg_block]"
    by (simp add: short_info_parsed_def recognized_def block_types_def lead_table_def)
  have s: "blocks short_info_parsed = [info_block, fmt_block, ecg_block]"
    by (simp add: short_info_parsed_def)
  have n: "find_block (blocks xtra_parsed) ''Info'' = None"
    using C7_block_lookup [of "blocks xtra_parsed" "''Info''"]
    by (simp add: xtra_parsed_def)
  have "blocks xtra_parsed =
      [xtra_block] @ info_block # [upper_info_block, fmt_block, ecg_block, xtra_block] \<and>
      identifier info_block = ''info'' \<and> (\<forall>x\<in>set [xtra_block]. identifier x \<noteq> ''info'')"
    by (simp add: xtra_parsed_def)
  then have "\<exists>pre post. blocks xtra_parsed = pre @ info_block # post \<and>
      identifier info_block = ''info'' \<and> (\<forall>x\<in>set pre. identifier x \<noteq> ''info'')"
    by blast
  then have i: "find_block (blocks xtra_parsed) ''info'' = Some info_block"
    using C7_block_lookup [of "blocks xtra_parsed" "''info''" info_block] by simp
  have "blocks xtra_parsed =
      [] @ xtra_block # [info_block, upper_info_block, fmt_block, ecg_block, xtra_block] \<and>
      identifier xtra_block = ''xtra'' \<and> (\<forall>x\<in>set []. identifier x \<noteq> ''xtra'')"
    by (simp add: xtra_parsed_def)
  then have "\<exists>pre post. blocks xtra_parsed = pre @ xtra_block # post \<and>
      identifier xtra_block = ''xtra'' \<and> (\<forall>x\<in>set pre. identifier x \<noteq> ''xtra'')"
    by blast
  then have x: "find_block (blocks xtra_parsed) ''xtra'' = Some xtra_block"
    using C7_block_lookup [of "blocks xtra_parsed" "''xtra''" xtra_block] by simp
  have bp: "blockParser
      [0x49, 0x4E, 0x46, 0x4F,  0x01, 0x00, 0x00, 0x00,  0x09,  0x00, 0x00, 0x00, 0x00]
     = Inr (upper_info_block, [])"
    by (simp add: upper_info_block_def container_simps)
  have t: "''info'' \<in> set block_types" by (simp add: block_types_def)
  have u: "identifier upper_info_block \<noteq> ''info''"
    using C7_block_lookup [of "[]" "''info''" info_block
        "[0x49, 0x4E, 0x46, 0x4F,  0x01, 0x00, 0x00, 0x00,  0x09,  0x00, 0x00, 0x00, 0x00]"
        upper_info_block "[]"] t bp
    by simp
  have "parse xtra_file = parse short_info_file"
    using C7_block_lookup [of "[]" "''''" info_block "[]" info_block "[]" xtra_file xtra_parsed
        short_info_file short_info_parsed]
      xtra_file_parsed short_info_file_parsed r r'
    by simp
  then show ?thesis
    using n i x bp u xtra_file_parsed short_info_file_parsed r s by simp
qed

section \<open>The file version (C9)\<close>

text \<open>C9: whenever \<^verbatim>\<open>parse\<close> succeeds, the \<^verbatim>\<open>fileVersion\<close> of the record is the string
  \<^verbatim>\<open>1.6\<close>, whatever the input is; the version field of the container is then 4.\<close>

theorem C9_fileVersion:
  assumes "parse input = Inr r"
  shows "fileVersion r = ''1.6'' \<and> (\<exists>parsed. fileParser input = Inr parsed \<and> version parsed = 4)"
  using assms
  by (auto simp: parse_def parseFileWithBufferBlocks_def split: sum.splits if_splits)

text \<open>C9 at the file whose \<^verbatim>\<open>info\<close> block has 5 bytes of content.\<close>

theorem C9_fileVersion_witness:
  "parse short_info_file = Inr short_info_decoded \<and> fileVersion short_info_decoded = ''1.6''"
  using C9_fileVersion [OF short_info_file_decoded] short_info_file_decoded by simp

section \<open>A lead block of length 0 (C10)\<close>

text \<open>C10: on a file that the container reader accepts, whose \<^verbatim>\<open>info\<close>, \<^verbatim>\<open>fmt \<close>
  (ecgFormat 1) and \<^verbatim>\<open>ann \<close> blocks pass and whose other lead blocks decode, a lead block
  with the declared length 0 makes \<^verbatim>\<open>parse\<close> succeed with that lead in \<^verbatim>\<open>leads\<close>, its
  sample list empty; when the file has no block of that lead type, \<^verbatim>\<open>parse\<close> succeeds and
  \<^verbatim>\<open>leads\<close> has no such lead. The two cases differ.\<close>

theorem C10_empty_lead:
  assumes "parseFileWithBufferBlocks input = Inr parsed"
    and "parseInfoBlock parsed = Inr i"
    and "parseFormatBlock parsed = Inr f"
    and "ecgFormat f = 1"
    and "parseAnnotationBlock parsed = Inr a"
    and "(type, name) \<in> set lead_table"
    and "\<forall>(t, n)\<in>set lead_table. t \<noteq> type \<longrightarrow> (\<exists>d. parseLeadBlock parsed t = Inr d)"
  shows "(find_block (blocks parsed) type = Some b \<and> block_length b = 0 \<longrightarrow>
           (\<exists>r. parse input = Inr r \<and> map_of (leads r) name = Some [])) \<and>
         (find_block (blocks parsed) type = None \<longrightarrow>
           (\<exists>r. parse input = Inr r \<and> map_of (leads r) name = None))"
proof (intro conjI impI)
  assume h: "find_block (blocks parsed) type = Some b \<and> block_length b = 0"
  then have "b \<in> set (blocks parsed)"
    using find_block_in_set [of "blocks parsed" type b] by simp
  then have "length (contents b) = block_length b"
    using parsed_block_invariant [OF assms(1)] by simp
  with h have "contents b = []" by simp
  with h have l: "parseLeadBlock parsed type = Inr (Some [])"
    by (simp add: parseLeadBlock_def leadBlockParser_def int16le_until_eof_Nil)
  have "\<exists>d. parseLeadBlock parsed t = Inr d" if "(t, n) \<in> set lead_table" for t n
    using that assms(7) l by (cases "t = type") auto
  then have "\<exists>r. parse input = Inr r \<and> map_of (leads r) name = lead_data parsed type"
    using assms(1-6) by (intro parse_leads_lookup) auto
  then show "\<exists>r. parse input = Inr r \<and> map_of (leads r) name = Some []"
    by (simp add: lead_data_def l)
next
  assume h: "find_block (blocks parsed) type = None"
  then have l: "parseLeadBlock parsed type = Inr None"
    by (simp add: parseLeadBlock_def)
  have "\<exists>d. parseLeadBlock parsed t = Inr d" if "(t, n) \<in> set lead_table" for t n
    using that assms(7) l by (cases "t = type") auto
  then have "\<exists>r. parse input = Inr r \<and> map_of (leads r) name = lead_data parsed type"
    using assms(1-6) by (intro parse_leads_lookup) auto
  then show "\<exists>r. parse input = Inr r \<and> map_of (leads r) name = None"
    by (simp add: lead_data_def l)
qed

text \<open>C10 at the file whose \<^verbatim>\<open>ecg \<close> block declares the length 0 and that has no
  \<^verbatim>\<open>ecg2\<close> block.\<close>

theorem C10_empty_lead_witness:
  "parseFileWithBufferBlocks empty_lead_file = Inr empty_lead_parsed \<and>
   find_block (blocks empty_lead_parsed) ''ecg '' = Some empty_ecg_block \<and>
   block_length empty_ecg_block = 0 \<and>
   (\<exists>r. parse empty_lead_file = Inr r \<and> map_of (leads r) ''leadI'' = Some []) \<and>
   find_block (blocks empty_lead_parsed) ''ecg2'' = None \<and>
   (\<exists>r. parse empty_lead_file = Inr r \<and> map_of (leads r) ''leadII'' = None)"
proof -
  have i: "parseInfoBlock empty_lead_parsed = Inr info_decoded"
    by (simp add: parseInfoBlock_def find_block_def empty_lead_parsed_def info_block_decoded)
  have f: "parseFormatBlock empty_lead_parsed = Inr fmt_decoded"
    by (simp add: parseFormatBlock_def find_block_def empty_lead_parsed_def fmt_block_decoded)
  have e: "ecgFormat fmt_decoded = 1" by (simp add: fmt_decoded_def)
  have a: "parseAnnotationBlock empty_lead_parsed = Inr None"
    by (simp add: parseAnnotationBlock_def find_block_def empty_lead_parsed_def)
  have t1: "(''ecg '', ''leadI'') \<in> set lead_table" by (simp add: lead_table_def)
  have t2: "(''ecg2'', ''leadII'') \<in> set lead_table" by (simp add: lead_table_def)
  have o1: "\<forall>(t, n)\<in>set lead_table. t \<noteq> ''ecg '' \<longrightarrow>
      (\<exists>d. parseLeadBlock empty_lead_parsed t = Inr d)"
    by (simp add: lead_table_def parseLeadBlock_def find_block_def empty_lead_parsed_def)
  have c: "contents empty_ecg_block = []" by (simp add: empty_ecg_block_def)
  have o2: "\<forall>(t, n)\<in>set lead_table. t \<noteq> ''ecg2'' \<longrightarrow>
      (\<exists>d. parseLeadBlock empty_lead_parsed t = Inr d)"
    by (simp add: lead_table_def parseLeadBlock_def find_block_def empty_lead_parsed_def
        leadBlockParser_def c int16le_until_eof_Nil)
  have b1: "find_block (blocks empty_lead_parsed) ''ecg '' = Some empty_ecg_block"
    by (simp add: find_block_def empty_lead_parsed_def)
  have b2: "find_block (blocks empty_lead_parsed) ''ecg2'' = None"
    by (simp add: find_block_def empty_lead_parsed_def)
  have z: "block_length empty_ecg_block = 0" by (simp add: empty_ecg_block_def)
  have "\<exists>r. parse empty_lead_file = Inr r \<and> map_of (leads r) ''leadI'' = Some []"
    using C10_empty_lead [OF empty_lead_file_parsed i f e a t1 o1, of empty_ecg_block] b1 z
    by simp
  moreover have "\<exists>r. parse empty_lead_file = Inr r \<and> map_of (leads r) ''leadII'' = None"
    using C10_empty_lead [OF empty_lead_file_parsed i f e a t2 o2, of empty_ecg_block] b2
    by simp
  ultimately show ?thesis using empty_lead_file_parsed b1 b2 z by simp
qed

end
